theory Spec2Isabelle
  imports Main "HOL-Library.Word" "HOL-Library.AList" "HOL-Library.Sublist"
begin

section \<open>Byte strings and the Go string functions the server calls\<close>

text \<open>
  A Go string is a sequence of bytes; \<^typ>\<open>string\<close> (a list of 8-bit characters) is the
  same thing. The functions of this section are the ones of Go's \<^verbatim>\<open>strings\<close> and
  \<^verbatim>\<open>fmt\<close> packages that \<^verbatim>\<open>parseLine\<close>, \<^verbatim>\<open>HandleCommands\<close>, \<^verbatim>\<open>writeMessage\<close> and
  \<^verbatim>\<open>clientArrival\<close> call, each at the arguments the server passes.
\<close>

abbreviation CR :: char where "CR \<equiv> CHR 0x0D"
abbreviation LF :: char where "LF \<equiv> CHR 0x0A"
abbreviation SP :: char where "SP \<equiv> CHR 0x20"

text \<open>
  \<^verbatim>\<open>strings.Trim(s, cutset)\<close> for a cutset of ASCII bytes: every leading and every
  trailing byte of the cutset is removed.
\<close>

definition Trim :: "string \<Rightarrow> string \<Rightarrow> string" where
  "Trim s cutset =
     rev (dropWhile (\<lambda>c. c \<in> set cutset) (rev (dropWhile (\<lambda>c. c \<in> set cutset) s)))"

text \<open>
  \<^verbatim>\<open>strings.SplitN(s, sep, 2)\<close> for a separator of one byte: no separator in \<open>s\<close> gives
  the one-element slice \<open>[s]\<close>, otherwise the part before the first separator and the
  whole part after it.
\<close>

definition SplitN :: "string \<Rightarrow> char \<Rightarrow> string list" where
  "SplitN s sep =
     (if sep \<in> set s
      then [takeWhile (\<lambda>c. c \<noteq> sep) s, tl (dropWhile (\<lambda>c. c \<noteq> sep) s)]
      else [s])"

text \<open>
  \<^verbatim>\<open>strings.TrimSpace\<close> removes the leading and trailing runes for which
  \<^verbatim>\<open>unicode.IsSpace\<close> holds. On bytes these are the UTF-8 encodings below: the six ASCII
  spaces, U+0085, U+00A0, U+1680, U+2000 to U+200A, U+2028, U+2029, U+202F, U+205F and
  U+3000. A byte sequence that is not one of them decodes to a rune that is not a space
  (or to the error rune), where trimming stops.
\<close>

definition unicodeSpaces :: "string list" where
  "unicodeSpaces =
     [[CHR 0x09], [LF], [CHR 0x0B], [CHR 0x0C], [CR], [SP],
      [CHR 0xC2, CHR 0x85], [CHR 0xC2, CHR 0xA0],
      [CHR 0xE1, CHR 0x9A, CHR 0x80],
      [CHR 0xE2, CHR 0x80, CHR 0x80], [CHR 0xE2, CHR 0x80, CHR 0x81],
      [CHR 0xE2, CHR 0x80, CHR 0x82], [CHR 0xE2, CHR 0x80, CHR 0x83],
      [CHR 0xE2, CHR 0x80, CHR 0x84], [CHR 0xE2, CHR 0x80, CHR 0x85],
      [CHR 0xE2, CHR 0x80, CHR 0x86], [CHR 0xE2, CHR 0x80, CHR 0x87],
      [CHR 0xE2, CHR 0x80, CHR 0x88], [CHR 0xE2, CHR 0x80, CHR 0x89],
      [CHR 0xE2, CHR 0x80, CHR 0x8A],
      [CHR 0xE2, CHR 0x80, CHR 0xA8], [CHR 0xE2, CHR 0x80, CHR 0xA9],
      [CHR 0xE2, CHR 0x80, CHR 0xAF],
      [CHR 0xE2, CHR 0x81, CHR 0x9F],
      [CHR 0xE3, CHR 0x80, CHR 0x80]]"

text \<open>The number of bytes of the space rune that \<open>s\<close> starts with; 0 when there is none.\<close>

definition leadingSpace :: "string list \<Rightarrow> string \<Rightarrow> nat" where
  "leadingSpace seqs s =
     (case find (\<lambda>w. w \<noteq> [] \<and> take (length w) s = w) seqs of
        None \<Rightarrow> 0
      | Some w \<Rightarrow> length w)"

function trimLeftSeqs :: "string list \<Rightarrow> string \<Rightarrow> string" where
  "trimLeftSeqs seqs s =
     (if leadingSpace seqs s = 0 then s
      else trimLeftSeqs seqs (drop (leadingSpace seqs s) s))"
  by pat_completeness auto
termination
proof (relation "measure (\<lambda>(seqs, s). length s)")
  show "wf (measure (\<lambda>(seqs, s). length s))" by simp
next
  fix seqs :: "string list" and s :: string
  assume nz: "leadingSpace seqs s \<noteq> 0"
  then obtain w where "find (\<lambda>w. w \<noteq> [] \<and> take (length w) s = w) seqs = Some w"
    by (auto simp: leadingSpace_def split: option.splits)
  then have "w \<noteq> [] \<and> take (length w) s = w"
    by (auto simp: find_Some_iff)
  then have "s \<noteq> []" by auto
  with nz show "((seqs, drop (leadingSpace seqs s) s), (seqs, s)) \<in> measure (\<lambda>(seqs, s). length s)"
    by simp
qed

declare trimLeftSeqs.simps [simp del]

definition TrimLeftSpace :: "string \<Rightarrow> string" where
  "TrimLeftSpace s = trimLeftSeqs unicodeSpaces s"

definition TrimRightSpace :: "string \<Rightarrow> string" where
  "TrimRightSpace s = rev (trimLeftSeqs (map rev unicodeSpaces) (rev s))"

definition TrimSpace :: "string \<Rightarrow> string" where
  "TrimSpace s = TrimRightSpace (TrimLeftSpace s)"

text \<open>
  \<^verbatim>\<open>strings.ToUpper\<close>: on a string of ASCII bytes only, the letters a to z are replaced
  by A to Z, byte by byte. A string with a byte of 0x80 or more goes through Unicode's
  case mapping of its runes, which belongs to Go's library and is a parameter here.
\<close>

definition isASCII :: "char \<Rightarrow> bool" where
  "isASCII c = (of_char c < (0x80 :: nat))"

definition upperByte :: "char \<Rightarrow> char" where
  "upperByte c =
     (case map_of (zip ''abcdefghijklmnopqrstuvwxyz'' ''ABCDEFGHIJKLMNOPQRSTUVWXYZ'') c of
        Some u \<Rightarrow> u
      | None \<Rightarrow> c)"

definition ToUpper :: "(string \<Rightarrow> string) \<Rightarrow> string \<Rightarrow> string" where
  "ToUpper unicodeUpper s =
     (if list_all isASCII s then map upperByte s else unicodeUpper s)"

text \<open>\<^verbatim>\<open>fmt.Sprintf("%d", n)\<close>: the decimal digits of an integer, with a minus sign.\<close>

definition digit :: "nat \<Rightarrow> char" where
  "digit d = ''0123456789'' ! d"

fun decimal :: "nat \<Rightarrow> string" where
  "decimal n = (if n < 10 then [digit n] else decimal (n div 10) @ [digit (n mod 10)])"

declare decimal.simps [simp del]

definition Sprintf_d :: "int \<Rightarrow> string" where
  "Sprintf_d i = (if i < 0 then CHR ''-'' # decimal (nat (- i)) else decimal (nat i))"

section \<open>Parsing a command line\<close>

text \<open>
  \<^verbatim>\<open>
  func parseLine(line string) (string, string) {
      params := strings.SplitN(strings.Trim(line, "\r\n"), " ", 2)
      if len(params) == 1 {
          return params[0], ""
      }
      return params[0], strings.TrimSpace(params[1])
  }
  \<close>
\<close>

definition parseLine :: "string \<Rightarrow> string \<times> string" where
  "parseLine line =
     (let params = SplitN (Trim line [CR, LF]) SP
      in if length params = 1 then (params ! 0, [])
         else (params ! 0, TrimSpace (params ! 1)))"

section \<open>Data model\<close>

text \<open>
  \<^verbatim>\<open>net.Conn\<close>, \<^verbatim>\<open>net.Listener\<close> and the transfer channel (\<^verbatim>\<open>transferHandler\<close>, an
  interface with \<^verbatim>\<open>Open\<close> and \<^verbatim>\<open>Close\<close>) are objects of the runtime and of the driver
  side: the model holds a handle for each and records every call on them as an event.
  A session is addressed by a pointer (\<open>ref\<close>): the registry stores pointers.
\<close>

record net_Conn =
  fd :: nat
  RemoteAddr :: string

type_synonym transferHandler = nat
type_synonym net_Listener = nat
type_synonym ref = nat

datatype error =
    TooManyClients int int
  | NoPassiveConnection
  | EOF
  | OtherError string

text \<open>\<^verbatim>\<open>err.Error()\<close>, the message of an error value.\<close>

fun Error :: "error \<Rightarrow> string" where
  "Error (TooManyClients nb mx) = ''Too many clients '' @ Sprintf_d nb @ '' > '' @ Sprintf_d mx"
| "Error NoPassiveConnection = ''No passive connection declared''"
| "Error EOF = ''EOF''"
| "Error (OtherError msg) = msg"

text \<open>
  What a function does beyond changing fields: bytes on the debug stream, bytes
  written and flushed on the control connection, calls on the transfer channel, the
  connection, the driver, the registry mutex and the listener, and \<^verbatim>\<open>time.Sleep\<close> with
  its duration in seconds.
\<close>

datatype event =
    Debug string
  | Send string
  | Transfer_Open transferHandler
  | Transfer_Close transferHandler
  | Conn_Close net_Conn
  | Driver_WelcomeUser
  | Driver_UserLeft
  | Lock
  | Unlock
  | Sleep nat
  | Listener_Close net_Listener

text \<open>How a call ends: it returns, it panics (a nil pointer), or it never returns.\<close>

datatype 'a result = Returns 'a | Panics | Blocks

record Settings =
  ListenHost :: string
  ListenPort :: int
  PublicHost :: string
  MaxConnections :: int

text \<open>
  The session. \<^verbatim>\<open>Id\<close> is \<open>ch_Id\<close> here. \<^verbatim>\<open>reader\<close> is \<open>None\<close> when the pointer is nil.
  Of the other fields of the source, \<^verbatim>\<open>daddy\<close> is the server of the \<open>world\<close> below, what
  goes through \<^verbatim>\<open>writer\<close> is recorded as \<open>Send\<close> events, and \<^verbatim>\<open>driver\<close> is used by the
  handlers only.
\<close>

record clientHandler =
  ch_Id :: "32 word"
  conn :: net_Conn
  reader :: "net_Conn option"
  user :: string
  isAuthed :: bool
  path :: string
  command :: string
  param :: string
  connectedAt :: nat
  ctx_rnfr :: string
  ctx_rest :: "64 word"
  transfer :: "transferHandler option"
  transferTls :: bool

text \<open>
  \<^verbatim>\<open>connectionsById\<close> is a Go map: an association list with one pair per key, updated
  by \<^const>\<open>AList.update\<close> and \<^const>\<open>AList.delete\<close>; \<^verbatim>\<open>len\<close> is its length.
\<close>

record FtpServer =
  Settings :: "Settings option"
  Listener :: "net_Listener option"
  StartTime :: nat
  connectionsById :: "(32 word \<times> ref) list"
  clientCounter :: "32 word"

text \<open>
  The state one session works on: the server it was accepted on (\<^verbatim>\<open>c.daddy\<close>), its own
  fields (\<^verbatim>\<open>*c\<close>), its address (\<^verbatim>\<open>c\<close>) and the events so far.
\<close>

record world =
  daddy :: FtpServer
  cli :: clientHandler
  self :: ref
  trace :: "event list"

section \<open>The server: settings, session ids, registry\<close>

text \<open>
  \<^verbatim>\<open>loadSettings\<close> reads the driver's settings through a pointer and fills in the zero
  fields. The argument is what \<^verbatim>\<open>driver.GetSettings()\<close> returned; a nil pointer panics at
  the first field access.
\<close>

definition loadSettings :: "Settings option \<Rightarrow> FtpServer \<Rightarrow> FtpServer result" where
  "loadSettings getSettings server =
     (case getSettings of
        None \<Rightarrow> Panics
      | Some s \<Rightarrow>
          (let s1 = (if ListenHost s = [] then s\<lparr>ListenHost := ''0.0.0.0''\<rparr> else s);
               s2 = (if ListenPort s1 = 0 then s1\<lparr>ListenPort := 2121\<rparr> else s1);
               s3 = (if MaxConnections s2 = 0 then s2\<lparr>MaxConnections := 10000\<rparr> else s2)
           in Returns (server\<lparr>Settings := Some s3\<rparr>)))"

text \<open>
  \<^verbatim>\<open>NewFtpServer\<close>: an empty registry, the counter at 0, no settings and no listener yet.
\<close>

definition NewFtpServer :: "nat \<Rightarrow> FtpServer" where
  "NewFtpServer now =
     \<lparr>Settings = None, Listener = None, StartTime = now,
      connectionsById = [], clientCounter = 0\<rparr>"

text \<open>
  \<^verbatim>\<open>NewClientHandler\<close>: the counter is a \<^verbatim>\<open>uint32\<close>, so \<^verbatim>\<open>+= 1\<close> wraps at \<open>2 ^ 32\<close>. The
  fields the source does not set have Go's zero values.
\<close>

definition NewClientHandler :: "nat \<Rightarrow> FtpServer \<Rightarrow> net_Conn \<Rightarrow> FtpServer \<times> clientHandler" where
  "NewClientHandler now server connection =
     (let server' = server\<lparr>clientCounter := clientCounter server + 1\<rparr>
      in (server',
          \<lparr>ch_Id = clientCounter server', conn = connection, reader = Some connection,
           user = [], isAuthed = False, path = ''/'', command = [], param = [],
           connectedAt = now, ctx_rnfr = [], ctx_rest = 0, transfer = None,
           transferTls = False\<rparr>))"

text \<open>
  The accept loop of \<^verbatim>\<open>ListenAndServe\<close>. Each element of the list is what one call of
  \<^verbatim>\<open>Listener.Accept()\<close> returned, with the time of the call. The loop ends at the first
  error, which it returns; when the list is used up it is waiting in \<^verbatim>\<open>Accept\<close>. The
  sessions are returned in the order they were created (each one is handed to its own
  goroutine).
\<close>

fun acceptLoop ::
  "FtpServer \<Rightarrow> (nat \<times> net_Conn \<times> error option) list \<Rightarrow>
     FtpServer \<times> clientHandler list \<times> error result" where
  "acceptLoop server [] = (server, [], Blocks)"
| "acceptLoop server ((now, connection, err) # rest) =
     (case err of
        Some e \<Rightarrow> (server, [], Returns e)
      | None \<Rightarrow>
          (let (server1, c) = NewClientHandler now server connection;
               (server2, cs, r) = acceptLoop server1 rest
           in (server2, c # cs, r)))"

definition debug :: "string \<Rightarrow> world \<Rightarrow> world" where
  "debug msg w = w\<lparr>trace := trace w @ [Debug msg]\<rparr>"

text \<open>
  \<^verbatim>\<open>clientArrival\<close>: the map assignment, then the size check. The entry stays in the map
  on both returns.
\<close>

definition clientArrival :: "world \<Rightarrow> (world \<times> error option) result" where
  "clientArrival w =
     (let w1 = w\<lparr>trace := trace w @ [Lock]\<rparr>;
          w2 = w1\<lparr>daddy := (daddy w1)
                 \<lparr>connectionsById :=
                    AList.update (ch_Id (cli w1)) (self w1) (connectionsById (daddy w1))\<rparr>\<rparr>;
          nb = int (length (connectionsById (daddy w2)));
          w3 = debug (''Client connected from '' @ RemoteAddr (conn (cli w2)) @ [LF]) w2
      in case Settings (daddy w3) of
           None \<Rightarrow> Panics
         | Some st \<Rightarrow>
             if nb > MaxConnections st
             then Returns (w3\<lparr>trace := trace w3 @ [Unlock]\<rparr>,
                           Some (TooManyClients nb (MaxConnections st)))
             else Returns (w3\<lparr>trace := trace w3 @ [Unlock]\<rparr>, None))"

definition clientDeparture :: "world \<Rightarrow> world" where
  "clientDeparture w =
     (let w1 = w\<lparr>trace := trace w @ [Lock]\<rparr>;
          w2 = w1\<lparr>daddy := (daddy w1)
                 \<lparr>connectionsById :=
                    AList.delete (ch_Id (cli w1)) (connectionsById (daddy w1))\<rparr>\<rparr>;
          w3 = debug (''Client from '' @ RemoteAddr (conn (cli w2)) @ '' disconnected'' @ [LF]) w2
      in w3\<lparr>trace := trace w3 @ [Unlock]\<rparr>)"

section \<open>The session\<close>

definition disconnect :: "world \<Rightarrow> world" where
  "disconnect w = w\<lparr>trace := trace w @ [Conn_Close (conn (cli w))]\<rparr>"

definition end_handler :: "world \<Rightarrow> world" where
  "end_handler w =
     (case transfer (cli w) of
        Some t \<Rightarrow> w\<lparr>trace := trace w @ [Transfer_Close t]\<rparr>
      | None \<Rightarrow> w)"

definition writeLine :: "string \<Rightarrow> world \<Rightarrow> world" where
  "writeLine line w =
     (let w1 = debug (''FTP SEND: '' @ line @ [LF]) w
      in w1\<lparr>trace := trace w1 @ [Send (line @ [CR, LF])]\<rparr>)"

definition writeMessage :: "int \<Rightarrow> string \<Rightarrow> world \<Rightarrow> world" where
  "writeMessage code message w = writeLine (Sprintf_d code @ '' '' @ message) w"

text \<open>
  \<^verbatim>\<open>TransferOpen\<close> returns Go's pair \<^verbatim>\<open>(net.Conn, error)\<close>. What \<^verbatim>\<open>c.transfer.Open()\<close>
  returns is decided by the channel, outside this code: \<open>chanOpen\<close> stands for it. A
  channel that returns neither a connection nor an error makes the debug line
  dereference nil.
\<close>

definition TransferOpen ::
  "(transferHandler \<Rightarrow> net_Conn option \<times> error option) \<Rightarrow> world \<Rightarrow>
     (world \<times> net_Conn option \<times> error option) result" where
  "TransferOpen chanOpen w =
     (case transfer (cli w) of
        Some t \<Rightarrow>
          (let w1 = writeMessage 150 ''Using transfer connection'' w;
               w2 = w1\<lparr>trace := trace w1 @ [Transfer_Open t]\<rparr>;
               (connection, err) = chanOpen t
           in if err = None
              then (case connection of
                      None \<Rightarrow> Panics
                    | Some cn \<Rightarrow>
                        Returns (debug (''FTP Transfer connection opened to '' @
                                        RemoteAddr cn @ [LF]) w2,
                                 connection, err))
              else Returns (w2, connection, err))
      | None \<Rightarrow>
          Returns (writeMessage 550 ''No passive connection declared'' w,
                   None, Some NoPassiveConnection))"

definition TransferClose :: "world \<Rightarrow> world" where
  "TransferClose w =
     (case transfer (cli w) of
        Some t \<Rightarrow>
          (let w1 = writeMessage 226 ''Closing transfer connection'' w;
               w2 = w1\<lparr>trace := trace w1 @ [Transfer_Close t]\<rparr>;
               w3 = w2\<lparr>cli := (cli w2)\<lparr>transfer := None\<rparr>\<rparr>
           in debug (''FTP Transfer connection closed'' @ [LF]) w3)
      | None \<Rightarrow> w)"

definition IsTransferClosed :: "clientHandler \<Rightarrow> bool" where
  "IsTransferClosed c = (transfer c = None)"

section \<open>The command table and the command loop\<close>

text \<open>
  The table \<^verbatim>\<open>commandsMap\<close> is filled once by \<^verbatim>\<open>init\<close>. The handlers are methods of the
  session whose bodies are in other files of the package: they are named here, and what
  they do is a parameter of the loop.
\<close>

datatype handler =
    handleUSER | handlePASS
  | handleSIZE | handleMDTM | handleRETR | handleSTOR | handleAPPE | handleDELE
  | handleRNFR | handleRNTO | handleALLO | handleREST
  | handleCWD | handlePWD | handleCDUP | handleLIST | handleMKD | handleRMD
  | handleTYPE | handlePASV | handleQUIT
  | handleAUTH | handlePROT | handlePBSZ
  | handleFEAT | handleSYST | handleNOOP | handleOPTS

definition commandsMap :: "string \<Rightarrow> handler option" where
  "commandsMap = map_of
     [(''USER'', handleUSER), (''PASS'', handlePASS),
      (''SIZE'', handleSIZE), (''MDTM'', handleMDTM), (''RETR'', handleRETR),
      (''STOR'', handleSTOR), (''APPE'', handleAPPE), (''DELE'', handleDELE),
      (''RNFR'', handleRNFR), (''RNTO'', handleRNTO), (''ALLO'', handleALLO),
      (''REST'', handleREST),
      (''CWD'', handleCWD), (''PWD'', handlePWD), (''CDUP'', handleCDUP),
      (''NLST'', handleLIST), (''LIST'', handleLIST), (''MKD'', handleMKD),
      (''RMD'', handleRMD),
      (''TYPE'', handleTYPE), (''PASV'', handlePASV), (''EPSV'', handlePASV),
      (''QUIT'', handleQUIT),
      (''AUTH'', handleAUTH), (''PROT'', handlePROT), (''PBSZ'', handlePBSZ),
      (''FEAT'', handleFEAT), (''SYST'', handleSYST), (''NOOP'', handleNOOP),
      (''OPTS'', handleOPTS)]"

text \<open>
  What the loop takes from outside this code: Unicode's upper-casing, the bodies of
  the handlers (a handler works on the session and, through \<^verbatim>\<open>c.daddy\<close>, on the server;
  it may also panic or never return) and the driver's greeting.
\<close>

record env =
  unicodeUpper :: "string \<Rightarrow> string"
  handlers :: "handler \<Rightarrow> world \<Rightarrow> world result"
  WelcomeUser :: "clientHandler \<Rightarrow> string \<times> error option"

text \<open>
  The body of the loop after a line was read: the line is parsed, verb and argument
  are stored in the session, then the gate and the dispatch.
\<close>

definition handleCommand :: "env \<Rightarrow> string \<Rightarrow> world \<Rightarrow> world result" where
  "handleCommand E line w =
     (let w1 = debug (''FTP RECV: '' @ line @ [LF]) w;
          (cmd, prm) = parseLine line;
          w2 = w1\<lparr>cli := (cli w1)\<lparr>command := ToUpper (unicodeUpper E) cmd, param := prm\<rparr>\<rparr>
      in if command (cli w2) \<noteq> ''USER'' \<and> command (cli w2) \<noteq> ''PASS'' \<and> \<not> isAuthed (cli w2)
         then Returns (writeMessage 530 ''Please login with USER and PASS'' w2)
         else (case commandsMap (command (cli w2)) of
                 None \<Rightarrow> Returns (writeMessage 550 ''Not handled'' w2)
               | Some fn \<Rightarrow> handlers E fn w2))"

text \<open>
  The \<^verbatim>\<open>for\<close> loop of \<^verbatim>\<open>HandleCommands\<close>. Each element of the input is what one call of
  \<^verbatim>\<open>c.reader.ReadString('\n')\<close> returned; when the input is used up the session is waiting
  in the read.
\<close>

fun commandLoop :: "env \<Rightarrow> (string \<times> error option) list \<Rightarrow> world \<Rightarrow> world result" where
  "commandLoop E [] w =
     (if reader (cli w) = None then Returns (debug (''Clean disconnect'' @ [LF]) w)
      else Blocks)"
| "commandLoop E ((line, err) # rest) w =
     (if reader (cli w) = None then Returns (debug (''Clean disconnect'' @ [LF]) w)
      else (case err of
              Some e \<Rightarrow>
                Returns (if e = EOF then debug (''TCP disconnect'' @ [LF]) w
                         else debug (''Read error: '' @ Error e @ [LF]) w)
            | None \<Rightarrow>
                (case handleCommand E line w of
                   Returns w' \<Rightarrow> commandLoop E rest w'
                 | Panics \<Rightarrow> Panics
                 | Blocks \<Rightarrow> Blocks)))"

definition driver_WelcomeUser :: "env \<Rightarrow> world \<Rightarrow> world \<times> string \<times> error option" where
  "driver_WelcomeUser E w =
     (w\<lparr>trace := trace w @ [Driver_WelcomeUser]\<rparr>, WelcomeUser E (cli w))"

definition driver_UserLeft :: "world \<Rightarrow> world" where
  "driver_UserLeft w = w\<lparr>trace := trace w @ [Driver_UserLeft]\<rparr>"

text \<open>
  \<^verbatim>\<open>HandleCommands\<close>. The deferred calls run at the return, last deferred first:
  \<^verbatim>\<open>UserLeft\<close> (only once it has been deferred), \<^verbatim>\<open>c.end()\<close>, \<^verbatim>\<open>clientDeparture\<close>.
\<close>

definition HandleCommands :: "env \<Rightarrow> (string \<times> error option) list \<Rightarrow> world \<Rightarrow> world result" where
  "HandleCommands E input w =
     (case clientArrival w of
        Panics \<Rightarrow> Panics
      | Blocks \<Rightarrow> Blocks
      | Returns (w1, Some err) \<Rightarrow>
          Returns (clientDeparture (end_handler
            (writeMessage 500 (''Can't accept you - '' @ Error err) w1)))
      | Returns (w1, None) \<Rightarrow>
          (let (w2, msg, err) = driver_WelcomeUser E w1
           in if err = None
              then (case commandLoop E input (writeMessage 220 msg w2) of
                      Returns w3 \<Rightarrow>
                        Returns (clientDeparture (end_handler (driver_UserLeft w3)))
                    | Panics \<Rightarrow> Panics
                    | Blocks \<Rightarrow> Blocks)
              else Returns (clientDeparture (end_handler (driver_UserLeft
                     (writeMessage 500 msg w2))))))"

section \<open>Shutdown\<close>

text \<open>
  \<^verbatim>\<open>Stop\<close> scans the registry again and again while the sessions run. \<open>polls i\<close> is what
  scan number \<open>i\<close> finds: the registry, and the sessions its pointers lead to. The scan
  leaves its \<^verbatim>\<open>range\<close> loop at the first session with an open channel, so \<^verbatim>\<open>allClosed\<close>
  holds when no session has one. The model returns \<open>None\<close> when no scan ever finds
  all channels closed: the loop runs forever.
\<close>

type_synonym snapshot = "(32 word \<times> ref) list \<times> (ref \<Rightarrow> clientHandler)"

definition allClosed :: "snapshot \<Rightarrow> bool" where
  "allClosed sn = list_all (\<lambda>(k, p). IsTransferClosed (snd sn p)) (fst sn)"

partial_function (option) Stop_loop ::
  "(nat \<Rightarrow> snapshot) \<Rightarrow> nat \<Rightarrow> event list \<Rightarrow> event list option" where
  "Stop_loop polls i tr =
     (if allClosed (polls i) then Some (tr @ [Lock, Unlock])
      else Stop_loop polls (Suc i) (tr @ [Lock, Unlock, Sleep 1]))"

definition Stop :: "(nat \<Rightarrow> snapshot) \<Rightarrow> FtpServer \<Rightarrow> event list result" where
  "Stop polls server =
     (case Stop_loop polls 0 [] of
        None \<Rightarrow> Blocks
      | Some tr \<Rightarrow>
          (case Listener server of
             None \<Rightarrow> Panics
           | Some l \<Rightarrow> Returns (tr @ [Listener_Close l])))"

section \<open>Concrete sessions and servers\<close>

text \<open>
  A server that listens with a limit of two sessions and has two registered, and the
  third session, just created by \<^const>\<open>NewClientHandler\<close>.
\<close>

definition example_conn :: net_Conn where
  "example_conn = \<lparr>fd = 5, RemoteAddr = ''192.0.2.7:40000''\<rparr>"

definition example_server :: FtpServer where
  "example_server =
     \<lparr>Settings = Some \<lparr>ListenHost = ''0.0.0.0'', ListenPort = 2121, PublicHost = [],
                       MaxConnections = 2\<rparr>,
      Listener = Some 1, StartTime = 0,
      connectionsById = [(1, 101), (2, 102)], clientCounter = 3\<rparr>"

definition example_client :: clientHandler where
  "example_client =
     \<lparr>ch_Id = 3, conn = example_conn, reader = Some example_conn,
      user = [], isAuthed = False, path = ''/'', command = [], param = [],
      connectedAt = 0, ctx_rnfr = [], ctx_rest = 0, transfer = None,
      transferTls = False\<rparr>"

definition example_world :: world where
  "example_world = \<lparr>daddy = example_server, cli = example_client, self = 103, trace = []\<rparr>"

text \<open>The same session on a server with room for it.\<close>

definition roomy_world :: world where
  "roomy_world =
     example_world\<lparr>daddy := example_server\<lparr>Settings := Some
       \<lparr>ListenHost = ''0.0.0.0'', ListenPort = 2121, PublicHost = [],
        MaxConnections = 10000\<rparr>\<rparr>\<rparr>"

text \<open>The same session with a transfer channel set up.\<close>

definition passive_world :: world where
  "passive_world = roomy_world\<lparr>cli := example_client\<lparr>transfer := Some 9\<rparr>\<rparr>"

text \<open>
  Stand-ins for what the loop takes from outside. \<open>strict_env\<close> has handlers that
  panic when called, so a run that returns has called none. \<open>unwelcome_env\<close> has a
  driver that rejects every connection. \<open>quit_env\<close> has a \<^verbatim>\<open>PASS\<close> handler that accepts
  any password and a \<^verbatim>\<open>QUIT\<close> handler that says goodbye, closes the connection and
  drops the reader, which is what ends the loop.
\<close>

definition strict_env :: env where
  "strict_env = \<lparr>unicodeUpper = (\<lambda>s. s), handlers = (\<lambda>h w. Panics),
                  WelcomeUser = (\<lambda>c. (''Welcome'', None))\<rparr>"

definition unwelcome_env :: env where
  "unwelcome_env = strict_env\<lparr>WelcomeUser := (\<lambda>c. (''Go away'', Some (OtherError ''banned'')))\<rparr>"

definition quit_env :: env where
  "quit_env = strict_env\<lparr>handlers := (\<lambda>h w.
      if h = handlePASS
      then Returns (writeMessage 230 ''Password ok, continue'' (w\<lparr>cli := (cli w)\<lparr>isAuthed := True\<rparr>\<rparr>))
      else if h = handleQUIT
      then Returns ((disconnect (writeMessage 221 ''Goodbye'' w))\<lparr>cli := (cli w)\<lparr>reader := None\<rparr>\<rparr>)
      else Returns (writeMessage 502 ''Not implemented'' w))\<rparr>"

text \<open>The states in which the runs of the four exit paths leave the session.\<close>

definition after_rejection :: world where
  "after_rejection = example_world\<lparr>trace :=
     [Lock, Debug (''Client connected from 192.0.2.7:40000'' @ [LF]), Unlock,
      Debug (''FTP SEND: 500 Can't accept you - Too many clients 3 > 2'' @ [LF]),
      Send (''500 Can't accept you - Too many clients 3 > 2'' @ [CR, LF]),
      Lock, Debug (''Client from 192.0.2.7:40000 disconnected'' @ [LF]), Unlock]\<rparr>"

definition after_unwelcome :: world where
  "after_unwelcome = roomy_world\<lparr>trace :=
     [Lock, Debug (''Client connected from 192.0.2.7:40000'' @ [LF]), Unlock,
      Driver_WelcomeUser,
      Debug (''FTP SEND: 500 Go away'' @ [LF]),
      Send (''500 Go away'' @ [CR, LF]),
      Driver_UserLeft,
      Lock, Debug (''Client from 192.0.2.7:40000 disconnected'' @ [LF]), Unlock]\<rparr>"

definition after_eof :: world where
  "after_eof = roomy_world\<lparr>trace :=
     [Lock, Debug (''Client connected from 192.0.2.7:40000'' @ [LF]), Unlock,
      Driver_WelcomeUser,
      Debug (''FTP SEND: 220 Welcome'' @ [LF]),
      Send (''220 Welcome'' @ [CR, LF]),
      Debug (''TCP disconnect'' @ [LF]),
      Driver_UserLeft,
      Lock, Debug (''Client from 192.0.2.7:40000 disconnected'' @ [LF]), Unlock]\<rparr>"

definition after_quit :: world where
  "after_quit = roomy_world\<lparr>
     cli := example_client\<lparr>isAuthed := True, command := ''QUIT'', reader := None\<rparr>,
     trace :=
     [Lock, Debug (''Client connected from 192.0.2.7:40000'' @ [LF]), Unlock,
      Driver_WelcomeUser,
      Debug (''FTP SEND: 220 Welcome'' @ [LF]),
      Send (''220 Welcome'' @ [CR, LF]),
      Debug (''FTP RECV: pass x'' @ [CR, LF, LF]),
      Debug (''FTP SEND: 230 Password ok, continue'' @ [LF]),
      Send (''230 Password ok, continue'' @ [CR, LF]),
      Debug (''FTP RECV: QUIT'' @ [CR, LF, LF]),
      Debug (''FTP SEND: 221 Goodbye'' @ [LF]),
      Send (''221 Goodbye'' @ [CR, LF]),
      Conn_Close example_conn,
      Debug (''Clean disconnect'' @ [LF]),
      Driver_UserLeft,
      Lock, Debug (''Client from 192.0.2.7:40000 disconnected'' @ [LF]), Unlock]\<rparr>"


text \<open>The two sessions after \<^const>\<open>clientArrival\<close>: the one over the limit, the one admitted.\<close>

definition after_arrival :: world where
  "after_arrival = example_world\<lparr>
     daddy := example_server\<lparr>connectionsById := [(1, 101), (2, 102), (3, 103)]\<rparr>,
     trace := [Lock, Debug (''Client connected from 192.0.2.7:40000'' @ [LF]), Unlock]\<rparr>"

definition admitted :: world where
  "admitted = roomy_world\<lparr>
     daddy := (daddy roomy_world)\<lparr>connectionsById := [(1, 101), (2, 102), (3, 103)]\<rparr>,
     trace := [Lock, Debug (''Client connected from 192.0.2.7:40000'' @ [LF]), Unlock]\<rparr>"


text \<open>
  What the scans of \<^const>\<open>Stop\<close> find: in \<open>drain_polls\<close> one session whose transfer channel
  is open at the first scan and closed from the second on; in \<open>idle_polls\<close> an empty
  registry.
\<close>

definition drain_polls :: "nat \<Rightarrow> snapshot" where
  "drain_polls i =
     (if i = 0 then ([(3, 103)], \<lambda>p. example_client\<lparr>transfer := Some 9\<rparr>)
      else ([(3, 103)], \<lambda>p. example_client))"

definition idle_polls :: "nat \<Rightarrow> snapshot" where
  "idle_polls i = ([], \<lambda>p. example_client)"


section \<open>The parsing as the specification words it\<close>

text \<open>
  For comparison with \<^const>\<open>parseLine\<close>: the line with its trailing line terminator
  (\<open>CR LF\<close>, or \<open>LF\<close> alone) stripped is split on the first space; the verb is the part
  before it, the argument the rest trimmed of surrounding white space; a line without a
  space has an empty argument.
\<close>

fun dropTerminator :: "string \<Rightarrow> string" where
  "dropTerminator (a # b # r) =
     (if a = LF \<and> b = CR then r else if a = LF then b # r else a # b # r)"
| "dropTerminator [a] = (if a = LF then [] else [a])"
| "dropTerminator [] = []"

definition stripTerminator :: "string \<Rightarrow> string" where
  "stripTerminator line = rev (dropTerminator (rev line))"

definition parseLine_as_stated :: "string \<Rightarrow> string \<times> string" where
  "parseLine_as_stated line =
     (let s = stripTerminator line
      in if SP \<in> set s
         then (takeWhile (\<lambda>c. c \<noteq> SP) s, TrimSpace (tl (dropWhile (\<lambda>c. c \<noteq> SP) s)))
         else (s, []))"


section \<open>Response codes\<close>

lemma Sprintf_d_codes:
  "Sprintf_d 150 = ''150''" "Sprintf_d 220 = ''220''" "Sprintf_d 226 = ''226''"
  "Sprintf_d 500 = ''500''" "Sprintf_d 530 = ''530''" "Sprintf_d 550 = ''550''"
  by (simp_all add: Sprintf_d_def decimal.simps digit_def)

section \<open>Settings\<close>

text \<open>
  C8. When the driver's settings are loaded, the listen host becomes \<open>0.0.0.0\<close>, the
  port 2121 and the connection limit 10000 exactly where the driver's field is the zero
  value (the empty string, 0); a non-zero field, the public host and the rest of the
  server are kept as they are.
\<close>

theorem loadSettings_defaults:
  "loadSettings (Some s) server =
     Returns (server\<lparr>Settings := Some (s\<lparr>
       ListenHost := (if ListenHost s = [] then ''0.0.0.0'' else ListenHost s),
       ListenPort := (if ListenPort s = 0 then 2121 else ListenPort s),
       MaxConnections := (if MaxConnections s = 0 then 10000 else MaxConnections s)\<rparr>)\<rparr>)"
  by (simp add: loadSettings_def Let_def)

theorem loadSettings_defaults_witness:
  "loadSettings (Some \<lparr>ListenHost = [], ListenPort = 0, PublicHost = ''10.0.0.1'',
                       MaxConnections = 0\<rparr>) (NewFtpServer 0) =
     Returns ((NewFtpServer 0)\<lparr>Settings := Some
       \<lparr>ListenHost = ''0.0.0.0'', ListenPort = 2121, PublicHost = ''10.0.0.1'',
        MaxConnections = 10000\<rparr>\<rparr>)
   \<and> loadSettings (Some \<lparr>ListenHost = ''127.0.0.1'', ListenPort = 21, PublicHost = [],
                         MaxConnections = - 1\<rparr>) (NewFtpServer 0) =
     Returns ((NewFtpServer 0)\<lparr>Settings := Some
       \<lparr>ListenHost = ''127.0.0.1'', ListenPort = 21, PublicHost = [],
        MaxConnections = - 1\<rparr>\<rparr>)"
  using loadSettings_defaults [of "\<lparr>ListenHost = [], ListenPort = 0,
          PublicHost = ''10.0.0.1'', MaxConnections = 0\<rparr>" "NewFtpServer 0"]
        loadSettings_defaults [of "\<lparr>ListenHost = ''127.0.0.1'', ListenPort = 21,
          PublicHost = [], MaxConnections = - 1\<rparr>" "NewFtpServer 0"]
  by simp

section \<open>The transfer channel\<close>

text \<open>
  C5. \<^verbatim>\<open>TransferClose\<close> on a session that holds a channel writes one 226 response, closes
  the channel and clears the reference, so that \<^verbatim>\<open>IsTransferClosed\<close> holds afterwards; on
  a session without a channel it writes nothing and changes nothing; calling it twice is
  the same as calling it once.
\<close>

theorem TransferClose_idempotent:
  "(\<forall>t. transfer (cli w) = Some t \<longrightarrow>
      TransferClose w =
        w\<lparr>cli := (cli w)\<lparr>transfer := None\<rparr>,
          trace := trace w @
            [Debug (''FTP SEND: 226 Closing transfer connection'' @ [LF]),
             Send (''226 Closing transfer connection'' @ [CR, LF]),
             Transfer_Close t,
             Debug (''FTP Transfer connection closed'' @ [LF])]\<rparr>
      \<and> IsTransferClosed (cli (TransferClose w)))
   \<and> (transfer (cli w) = None \<longrightarrow> TransferClose w = w)
   \<and> TransferClose (TransferClose w) = TransferClose w"
  by (cases "transfer (cli w)")
     (simp_all add: TransferClose_def writeMessage_def writeLine_def debug_def Let_def
        Sprintf_d_codes IsTransferClosed_def)

theorem TransferClose_idempotent_witness:
  "transfer (cli passive_world) = Some 9
   \<and> trace (TransferClose passive_world) =
       [Debug (''FTP SEND: 226 Closing transfer connection'' @ [LF]),
        Send (''226 Closing transfer connection'' @ [CR, LF]),
        Transfer_Close 9,
        Debug (''FTP Transfer connection closed'' @ [LF])]
   \<and> IsTransferClosed (cli (TransferClose passive_world))
   \<and> TransferClose (TransferClose passive_world) = TransferClose passive_world
   \<and> transfer (cli roomy_world) = None
   \<and> TransferClose roomy_world = roomy_world"
  (is "?p \<and> ?tr \<and> ?cl \<and> ?twice \<and> ?r \<and> ?same")
proof -
  have p: ?p by (simp add: passive_world_def)
  have r: ?r by (simp add: roomy_world_def example_world_def example_client_def)
  have t: "trace passive_world = []"
    by (simp add: passive_world_def roomy_world_def example_world_def)
  from TransferClose_idempotent [of passive_world] p t have ?tr by simp
  moreover from TransferClose_idempotent [of passive_world] p have ?cl by blast
  moreover from TransferClose_idempotent [of passive_world] have ?twice by blast
  moreover from TransferClose_idempotent [of roomy_world] r have ?same by blast
  ultimately show ?thesis using p r by blast
qed

text \<open>
  C6. \<^verbatim>\<open>TransferOpen\<close> on a session without a channel writes the 550 response and
  returns no stream and the error "No passive connection declared". On a session with
  a channel it writes the 150 response first, then opens the channel: when the channel
  gives a stream, the stream is returned; when it gives an error, the error is returned
  with whatever came with it. Nothing but the trace changes, so the session still refers
  to the channel. (A channel that gives neither makes the call panic.)
\<close>

theorem TransferOpen_cases:
  "(transfer (cli w) = None \<longrightarrow>
      TransferOpen chanOpen w =
        Returns (w\<lparr>trace := trace w @
                   [Debug (''FTP SEND: 550 No passive connection declared'' @ [LF]),
                    Send (''550 No passive connection declared'' @ [CR, LF])]\<rparr>,
                 None, Some NoPassiveConnection))
   \<and> (\<forall>t. transfer (cli w) = Some t \<longrightarrow>
        (\<forall>cn. chanOpen t = (Some cn, None) \<longrightarrow>
           TransferOpen chanOpen w =
             Returns (w\<lparr>trace := trace w @
                        [Debug (''FTP SEND: 150 Using transfer connection'' @ [LF]),
                         Send (''150 Using transfer connection'' @ [CR, LF]),
                         Transfer_Open t,
                         Debug (''FTP Transfer connection opened to '' @ RemoteAddr cn @ [LF])]\<rparr>,
                      Some cn, None))
      \<and> (\<forall>cn err. chanOpen t = (cn, Some err) \<longrightarrow>
           TransferOpen chanOpen w =
             Returns (w\<lparr>trace := trace w @
                        [Debug (''FTP SEND: 150 Using transfer connection'' @ [LF]),
                         Send (''150 Using transfer connection'' @ [CR, LF]),
                         Transfer_Open t]\<rparr>,
                      cn, Some err))
      \<and> (chanOpen t = (None, None) \<longrightarrow> TransferOpen chanOpen w = Panics))"
  by (cases "transfer (cli w)")
     (simp_all add: TransferOpen_def writeMessage_def writeLine_def debug_def Let_def
        Sprintf_d_codes)

theorem TransferOpen_cases_witness:
  "transfer (cli roomy_world) = None
   \<and> TransferOpen (\<lambda>t. (None, Some (OtherError ''accept timeout''))) roomy_world =
       Returns (roomy_world\<lparr>trace :=
                  [Debug (''FTP SEND: 550 No passive connection declared'' @ [LF]),
                   Send (''550 No passive connection declared'' @ [CR, LF])]\<rparr>,
                None, Some NoPassiveConnection)
   \<and> transfer (cli passive_world) = Some 9
   \<and> TransferOpen (\<lambda>t. (None, Some (OtherError ''accept timeout''))) passive_world =
       Returns (passive_world\<lparr>trace :=
                  [Debug (''FTP SEND: 150 Using transfer connection'' @ [LF]),
                   Send (''150 Using transfer connection'' @ [CR, LF]),
                   Transfer_Open 9]\<rparr>,
                None, Some (OtherError ''accept timeout''))
   \<and> TransferOpen (\<lambda>t. (Some example_conn, None)) passive_world =
       Returns (passive_world\<lparr>trace :=
                  [Debug (''FTP SEND: 150 Using transfer connection'' @ [LF]),
                   Send (''150 Using transfer connection'' @ [CR, LF]),
                   Transfer_Open 9,
                   Debug (''FTP Transfer connection opened to 192.0.2.7:40000'' @ [LF])]\<rparr>,
                Some example_conn, None)"
  (is "?r \<and> ?o1 \<and> ?p \<and> ?o2 \<and> ?o3")
proof -
  have p: ?p by (simp add: passive_world_def)
  have r: ?r by (simp add: roomy_world_def example_world_def example_client_def)
  have t: "trace passive_world = []" "trace roomy_world = []"
    by (simp_all add: passive_world_def roomy_world_def example_world_def)
  have a: "RemoteAddr example_conn = ''192.0.2.7:40000''"
    by (simp add: example_conn_def)
  from TransferOpen_cases [of roomy_world "\<lambda>t. (None, Some (OtherError ''accept timeout''))"] r t
  have ?o1 by simp
  moreover
  from TransferOpen_cases [of passive_world "\<lambda>t. (None, Some (OtherError ''accept timeout''))"] p t
  have ?o2 by simp
  moreover
  from TransferOpen_cases [of passive_world "\<lambda>t. (Some example_conn, None)"] p t a
  have ?o3 by simp
  ultimately show ?thesis using p r by blast
qed

section \<open>The gate before authentication\<close>

lemma parse_LIST: "parseLine (''list -la'' @ [CR, LF]) = (''list'', ''-la'')"
  by (simp add: parseLine_def SplitN_def Trim_def TrimSpace_def TrimLeftSpace_def
        TrimRightSpace_def trimLeftSeqs.simps leadingSpace_def unicodeSpaces_def)

lemma parse_FOO: "parseLine (''FOO'' @ [CR, LF]) = (''FOO'', [])"
  by (simp add: parseLine_def SplitN_def Trim_def)

lemma upper_list: "ToUpper f ''list'' = ''LIST''"
  by (simp add: ToUpper_def isASCII_def upperByte_def)

lemma upper_FOO: "ToUpper f ''FOO'' = ''FOO''"
  by (simp add: ToUpper_def isASCII_def upperByte_def)

text \<open>
  C1. On a session that is not authenticated, a line whose upper-cased verb is neither
  \<^verbatim>\<open>USER\<close> nor \<^verbatim>\<open>PASS\<close> gets the response "530 Please login with USER and PASS" and
  nothing else: verb and argument are stored, the response is written, no handler is
  called (the result does not depend on the handlers, and the verb may be in the table
  or not), and the loop goes on with the next line.
\<close>

theorem unauthenticated_gate:
  assumes "\<not> isAuthed (cli w)"
    and "ToUpper (unicodeUpper E) (fst (parseLine line)) \<noteq> ''USER''"
    and "ToUpper (unicodeUpper E) (fst (parseLine line)) \<noteq> ''PASS''"
  shows "let w' = w\<lparr>cli := (cli w)\<lparr>command := ToUpper (unicodeUpper E) (fst (parseLine line)),
                                 param := snd (parseLine line)\<rparr>,
                    trace := trace w @
                      [Debug (''FTP RECV: '' @ line @ [LF]),
                       Debug (''FTP SEND: 530 Please login with USER and PASS'' @ [LF]),
                       Send (''530 Please login with USER and PASS'' @ [CR, LF])]\<rparr>
         in handleCommand E line w = Returns w'
          \<and> (reader (cli w) \<noteq> None \<longrightarrow>
               commandLoop E ((line, None) # rest) w = commandLoop E rest w')"
  using assms
  by (auto simp: handleCommand_def Let_def split_beta writeMessage_def writeLine_def
        debug_def Sprintf_d_codes)

theorem unauthenticated_gate_witness:
  "\<not> isAuthed (cli roomy_world)
   \<and> commandsMap ''LIST'' = Some handleLIST
   \<and> handleCommand strict_env (''list -la'' @ [CR, LF]) roomy_world =
       Returns (roomy_world\<lparr>cli := (cli roomy_world)\<lparr>command := ''LIST'', param := ''-la''\<rparr>,
                  trace := [Debug (''FTP RECV: list -la'' @ [CR, LF, LF]),
                         Debug (''FTP SEND: 530 Please login with USER and PASS'' @ [LF]),
                         Send (''530 Please login with USER and PASS'' @ [CR, LF])]\<rparr>)
   \<and> commandsMap ''FOO'' = None
   \<and> handleCommand strict_env (''FOO'' @ [CR, LF]) roomy_world =
       Returns (roomy_world\<lparr>cli := (cli roomy_world)\<lparr>command := ''FOO'', param := []\<rparr>,
                  trace := [Debug (''FTP RECV: FOO'' @ [CR, LF, LF]),
                         Debug (''FTP SEND: 530 Please login with USER and PASS'' @ [LF]),
                         Send (''530 Please login with USER and PASS'' @ [CR, LF])]\<rparr>)"
  (is "?a \<and> ?t1 \<and> ?r1 \<and> ?t2 \<and> ?r2")
proof -
  have a: ?a by (simp add: roomy_world_def example_world_def example_client_def)
  have t: "trace roomy_world = []" by (simp add: roomy_world_def example_world_def)
  have ?r1
    using unauthenticated_gate [of roomy_world strict_env "''list -la'' @ [CR, LF]" "[]"] a t
    by (simp add: parse_LIST [simplified] upper_list Let_def)
  moreover have ?r2
    using unauthenticated_gate [of roomy_world strict_env "''FOO'' @ [CR, LF]" "[]"] a t
    by (simp add: parse_FOO [simplified] upper_FOO Let_def)
  moreover have ?t1 ?t2 by (simp_all add: commandsMap_def)
  ultimately show ?thesis using a by blast
qed

section \<open>Running a session\<close>

lemmas fixture_defs = example_world_def roomy_world_def example_server_def example_client_def
  example_conn_def strict_env_def unwelcome_env_def quit_env_def
lemmas run_defs = HandleCommands_def clientArrival_def clientDeparture_def end_handler_def
  driver_UserLeft_def driver_WelcomeUser_def writeMessage_def writeLine_def debug_def Let_def
  Sprintf_d_def decimal.simps digit_def disconnect_def

lemma run_rejection: "HandleCommands E input example_world = Returns after_rejection"
  by (simp add: after_rejection_def fixture_defs run_defs)

lemma run_unwelcome: "HandleCommands unwelcome_env input roomy_world = Returns after_unwelcome"
  by (simp add: after_unwelcome_def fixture_defs run_defs)

lemma run_eof: "HandleCommands strict_env [(partial, Some EOF)] roomy_world = Returns after_eof"
  by (simp add: after_eof_def fixture_defs run_defs)

lemma parse_pass: "parseLine (''pass x'' @ [CR, LF]) = (''pass'', ''x'')"
  by (simp add: parseLine_def SplitN_def Trim_def TrimSpace_def TrimLeftSpace_def
        TrimRightSpace_def trimLeftSeqs.simps leadingSpace_def unicodeSpaces_def)

lemma parse_QUIT: "parseLine (''QUIT'' @ [CR, LF]) = (''QUIT'', [])"
  by (simp add: parseLine_def SplitN_def Trim_def)

lemma upper_pass: "ToUpper f ''pass'' = ''PASS''"
  by (simp add: ToUpper_def isASCII_def upperByte_def)

lemma upper_QUIT: "ToUpper f ''QUIT'' = ''QUIT''"
  by (simp add: ToUpper_def isASCII_def upperByte_def)

lemma run_quit:
  "HandleCommands quit_env [(''pass x'' @ [CR, LF], None), (''QUIT'' @ [CR, LF], None)] roomy_world =
     Returns after_quit"
  by (simp add: after_quit_def fixture_defs run_defs handleCommand_def commandsMap_def
        parse_pass [simplified] parse_QUIT [simplified] upper_pass upper_QUIT)

lemma clientArrival_Returns:
  assumes "Settings (daddy w) = Some st"
  shows "clientArrival w =
     Returns (w\<lparr>daddy := (daddy w)\<lparr>connectionsById :=
                   AList.update (ch_Id (cli w)) (self w) (connectionsById (daddy w))\<rparr>,
                trace := trace w @
                  [Lock, Debug (''Client connected from '' @ RemoteAddr (conn (cli w)) @ [LF]),
                   Unlock]\<rparr>,
              if int (length (AList.update (ch_Id (cli w)) (self w) (connectionsById (daddy w))))
                   > MaxConnections st
              then Some (TooManyClients
                     (int (length (AList.update (ch_Id (cli w)) (self w) (connectionsById (daddy w)))))
                     (MaxConnections st))
              else None)"
  using assms by (simp add: clientArrival_def Let_def debug_def)

lemma clientDeparture_fields:
  "cli (clientDeparture w) = cli w"
  "self (clientDeparture w) = self w"
  "connectionsById (daddy (clientDeparture w)) = AList.delete (ch_Id (cli w)) (connectionsById (daddy w))"
  "trace (clientDeparture w) = trace w @
     [Lock, Debug (''Client from '' @ RemoteAddr (conn (cli w)) @ '' disconnected'' @ [LF]), Unlock]"
  by (simp_all add: clientDeparture_def Let_def debug_def)

lemma end_handler_fields:
  "cli (end_handler w) = cli w"
  "self (end_handler w) = self w"
  "daddy (end_handler w) = daddy w"
  "trace (end_handler w) = trace w @ (case transfer (cli w) of Some t \<Rightarrow> [Transfer_Close t] | None \<Rightarrow> [])"
  by (simp_all add: end_handler_def split: option.splits)

lemma driver_UserLeft_fields:
  "cli (driver_UserLeft w) = cli w"
  "self (driver_UserLeft w) = self w"
  "daddy (driver_UserLeft w) = daddy w"
  "trace (driver_UserLeft w) = trace w @ [Driver_UserLeft]"
  by (simp_all add: driver_UserLeft_def)

lemma writeMessage_fields:
  "cli (writeMessage code msg w) = cli w"
  "self (writeMessage code msg w) = self w"
  "daddy (writeMessage code msg w) = daddy w"
  "trace (writeMessage code msg w) = trace w @
     [Debug (''FTP SEND: '' @ Sprintf_d code @ '' '' @ msg @ [LF]),
      Send (Sprintf_d code @ '' '' @ msg @ [CR, LF])]"
  by (simp_all add: writeMessage_def writeLine_def debug_def Let_def)

lemma departed: "map_of (connectionsById (daddy (clientDeparture w))) (ch_Id (cli (clientDeparture w))) = None"
  by (simp add: clientDeparture_fields delete_conv)

lemma HandleCommands_Returns_cases:
  assumes "HandleCommands E input w = Returns w'"
  shows "\<exists>v. w' = clientDeparture (end_handler v)"
  using assms
  by (auto simp: HandleCommands_def Let_def split_beta split: result.splits prod.splits option.splits if_splits)

lemma update_lookup: "map_of (AList.update k v al) k = Some v"
  by (simp add: update_conv)

lemma HandleCommands_rejected:
  assumes "clientArrival w = Returns (w1, Some err)"
  shows "HandleCommands E input w =
           Returns (clientDeparture (end_handler
             (writeMessage 500 (''Can't accept you - '' @ Error err) w1)))"
  using assms by (simp add: HandleCommands_def)

lemma HandleCommands_unwelcome:
  assumes "clientArrival w = Returns (w1, None)" and "WelcomeUser E (cli w1) = (msg, Some err)"
  shows "HandleCommands E input w =
           Returns (clientDeparture (end_handler (driver_UserLeft
             (writeMessage 500 msg (w1\<lparr>trace := trace w1 @ [Driver_WelcomeUser]\<rparr>)))))"
  using assms by (simp add: HandleCommands_def driver_WelcomeUser_def)

lemma HandleCommands_welcome:
  assumes "clientArrival w = Returns (w1, None)" and "WelcomeUser E (cli w1) = (msg, None)"
  shows "HandleCommands E input w =
           (case commandLoop E input (writeMessage 220 msg (w1\<lparr>trace := trace w1 @ [Driver_WelcomeUser]\<rparr>)) of
              Returns w3 \<Rightarrow> Returns (clientDeparture (end_handler (driver_UserLeft w3)))
            | Panics \<Rightarrow> Panics
            | Blocks \<Rightarrow> Blocks)"
  using assms by (simp add: HandleCommands_def driver_WelcomeUser_def)

lemma handleCommand_Id:
  assumes "\<forall>h v v'. handlers E h v = Returns v' \<longrightarrow> ch_Id (cli v') = ch_Id (cli v)"
    and "handleCommand E line w = Returns w'"
  shows "ch_Id (cli w') = ch_Id (cli w)"
proof -
  let ?w2 = "(debug (''FTP RECV: '' @ line @ [LF]) w)\<lparr>cli := (cli w)\<lparr>command := ToUpper (unicodeUpper E) (fst (parseLine line)), param := snd (parseLine line)\<rparr>\<rparr>"
  have id2: "ch_Id (cli ?w2) = ch_Id (cli w)" by simp
  from assms(2) consider
      (gate) "w' = writeMessage 530 ''Please login with USER and PASS'' ?w2"
    | (unknown) "w' = writeMessage 550 ''Not handled'' ?w2"
    | (call) fn where "handlers E fn ?w2 = Returns w'"
    by (auto simp: handleCommand_def Let_def split_beta debug_def split: if_splits option.splits)
  then show ?thesis
  proof cases
    case gate then show ?thesis by (simp add: writeMessage_fields)
  next
    case unknown then show ?thesis by (simp add: writeMessage_fields)
  next
    case call
    with assms(1) have "ch_Id (cli w') = ch_Id (cli ?w2)" by blast
    then show ?thesis by simp
  qed
qed

lemma commandLoop_Id:
  assumes "\<forall>h v v'. handlers E h v = Returns v' \<longrightarrow> ch_Id (cli v') = ch_Id (cli v)"
  shows "commandLoop E input w = Returns w' \<Longrightarrow> ch_Id (cli w') = ch_Id (cli w)"
proof (induction input arbitrary: w)
  case Nil
  then show ?case by (auto simp: debug_def split: if_splits)
next
  case (Cons r rest)
  obtain line err where r: "r = (line, err)" by (cases r)
  show ?case
  proof (cases "reader (cli w) = None")
    case True
    with Cons.prems r show ?thesis by (auto simp: debug_def)
  next
    case False
    show ?thesis
    proof (cases err)
      case (Some e)
      with Cons.prems r False show ?thesis by (auto simp: debug_def split: if_splits)
    next
      case None
      with Cons.prems r False obtain v where v: "handleCommand E line w = Returns v"
        and l: "commandLoop E rest v = Returns w'"
        by (auto split: result.splits)
      from Cons.IH [OF l] handleCommand_Id [OF assms v] show ?thesis by simp
    qed
  qed
qed

section \<open>Departure\<close>

text \<open>
  C10. Every return of \<^verbatim>\<open>HandleCommands\<close> leaves the registry without an entry for the
  session's id: the departure is deferred first, so it runs last on every path. The id
  is the one the session has at the return; it is the one it started with when no
  handler changes it. In particular the session that was refused at admission, which
  \<^verbatim>\<open>clientArrival\<close> left in the registry, always returns and is removed.
\<close>

theorem HandleCommands_deregisters:
  "(\<forall>w'. HandleCommands E input w = Returns w' \<longrightarrow>
      map_of (connectionsById (daddy w')) (ch_Id (cli w')) = None
      \<and> ((\<forall>h v v'. handlers E h v = Returns v' \<longrightarrow> ch_Id (cli v') = ch_Id (cli v)) \<longrightarrow>
           ch_Id (cli w') = ch_Id (cli w)))
   \<and> (\<forall>w1 err. clientArrival w = Returns (w1, Some err) \<longrightarrow>
        map_of (connectionsById (daddy w1)) (ch_Id (cli w)) = Some (self w)
        \<and> (\<exists>w'. HandleCommands E input w = Returns w'
              \<and> map_of (connectionsById (daddy w')) (ch_Id (cli w)) = None))"
proof (intro conjI allI impI)
  fix w' assume r: "HandleCommands E input w = Returns w'"
  from HandleCommands_Returns_cases [OF r] obtain v where "w' = clientDeparture (end_handler v)" ..
  then show "map_of (connectionsById (daddy w')) (ch_Id (cli w')) = None" by (simp add: departed)
next
  fix w' assume r: "HandleCommands E input w = Returns w'"
    and h: "\<forall>h v v'. handlers E h v = Returns v' \<longrightarrow> ch_Id (cli v') = ch_Id (cli v)"
  have arr: "\<And>w1 e. clientArrival w = Returns (w1, e) \<Longrightarrow> cli w1 = cli w"
    by (auto simp: clientArrival_def Let_def debug_def split: option.splits if_splits)
  from r show "ch_Id (cli w') = ch_Id (cli w)"
    by (auto simp: HandleCommands_def Let_def split_beta driver_WelcomeUser_def
          clientDeparture_fields end_handler_fields driver_UserLeft_fields writeMessage_fields
          dest!: arr commandLoop_Id [OF h] 
          split: result.splits prod.splits option.splits if_splits)
next
  fix w1 err assume a: "clientArrival w = Returns (w1, Some err)"
  then show "map_of (connectionsById (daddy w1)) (ch_Id (cli w)) = Some (self w)"
    by (auto simp: clientArrival_def Let_def debug_def update_lookup split: option.splits if_splits)
next
  fix w1 err assume a: "clientArrival w = Returns (w1, Some err)"
  then have c: "cli w1 = cli w"
    by (auto simp: clientArrival_def Let_def debug_def split: option.splits if_splits)
  show "\<exists>w'. HandleCommands E input w = Returns w'
              \<and> map_of (connectionsById (daddy w')) (ch_Id (cli w)) = None"
    by (simp add: HandleCommands_rejected [OF a] clientDeparture_fields end_handler_fields
          writeMessage_fields c delete_conv)
qed

lemma after_ids:
  "ch_Id (cli example_world) = 3" "ch_Id (cli roomy_world) = 3"
  "ch_Id (cli after_rejection) = 3" "ch_Id (cli after_unwelcome) = 3"
  "ch_Id (cli after_eof) = 3" "ch_Id (cli after_quit) = 3"
  by (simp_all add: after_rejection_def after_unwelcome_def after_eof_def after_quit_def
        fixture_defs)

theorem HandleCommands_deregisters_witness:
  "HandleCommands strict_env [] example_world = Returns after_rejection
   \<and> map_of (connectionsById (daddy after_rejection)) 3 = None
   \<and> HandleCommands unwelcome_env [] roomy_world = Returns after_unwelcome
   \<and> map_of (connectionsById (daddy after_unwelcome)) 3 = None
   \<and> HandleCommands strict_env [([], Some EOF)] roomy_world = Returns after_eof
   \<and> map_of (connectionsById (daddy after_eof)) 3 = None
   \<and> HandleCommands quit_env
        [(''pass x'' @ [CR, LF], None), (''QUIT'' @ [CR, LF], None)] roomy_world =
       Returns after_quit
   \<and> map_of (connectionsById (daddy after_quit)) 3 = None"
proof -
  from HandleCommands_deregisters [of strict_env "[]" example_world] run_rejection
  have "map_of (connectionsById (daddy after_rejection)) (ch_Id (cli after_rejection)) = None"
    by blast
  moreover
  from HandleCommands_deregisters [of unwelcome_env "[]" roomy_world] run_unwelcome
  have "map_of (connectionsById (daddy after_unwelcome)) (ch_Id (cli after_unwelcome)) = None"
    by blast
  moreover
  from HandleCommands_deregisters [of strict_env "[([], Some EOF)]" roomy_world] run_eof
  have "map_of (connectionsById (daddy after_eof)) (ch_Id (cli after_eof)) = None"
    by blast
  moreover
  from HandleCommands_deregisters [of quit_env
      "[(''pass x'' @ [CR, LF], None), (''QUIT'' @ [CR, LF], None)]" roomy_world] run_quit
  have "map_of (connectionsById (daddy after_quit)) (ch_Id (cli after_quit)) = None"
    by blast
  ultimately show ?thesis
    by (simp only: after_ids run_rejection run_unwelcome run_eof run_quit simp_thms)
qed

section \<open>Admission\<close>

text \<open>With one pair per key, the length of the list is the number of keys of the map.\<close>

lemma length_registry:
  assumes "distinct (map fst al)"
  shows "length al = card (dom (map_of al))"
proof -
  have "card (dom (map_of al)) = card (fst ` set al)" by (simp add: dom_map_of_conv_image_fst)
  also have "\<dots> = card (set (map fst al))" by simp
  also have "\<dots> = length (map fst al)" using assms by (rule distinct_card)
  finally show ?thesis by simp
qed

text \<open>
  C2 (as amended). \<^verbatim>\<open>clientArrival\<close> stores the session in the registry under its id,
  between \<^verbatim>\<open>Lock\<close> and \<^verbatim>\<open>Unlock\<close>. When the size of the registry is then above
  \<^verbatim>\<open>MaxConnections\<close> it returns the error "Too many clients" and the entry stays in the
  registry; otherwise it returns no error. On the error \<^verbatim>\<open>HandleCommands\<close> writes the
  response "500 Can't accept you - Too many clients nb > max" and returns without greeting
  the client or reading a command: what follows the response is the close of the transfer
  channel, when there is one, and the departure from the registry.
\<close>

theorem clientArrival_admission:
  assumes "Settings (daddy w) = Some st"
  shows "\<exists>w1 nb.
      nb = int (length (connectionsById (daddy w1)))
    \<and> clientArrival w =
        Returns (w1, if nb > MaxConnections st
                     then Some (TooManyClients nb (MaxConnections st)) else None)
    \<and> connectionsById (daddy w1) =
        AList.update (ch_Id (cli w)) (self w) (connectionsById (daddy w))
    \<and> map_of (connectionsById (daddy w1)) (ch_Id (cli w)) = Some (self w)
    \<and> (distinct (map fst (connectionsById (daddy w))) \<longrightarrow>
         distinct (map fst (connectionsById (daddy w1)))
         \<and> length (connectionsById (daddy w1)) = card (dom (map_of (connectionsById (daddy w1)))))
    \<and> cli w1 = cli w
    \<and> trace w1 = trace w @
        [Lock, Debug (''Client connected from '' @ RemoteAddr (conn (cli w)) @ [LF]), Unlock]
    \<and> (nb > MaxConnections st \<longrightarrow>
         (\<exists>w'. HandleCommands E input w = Returns w'
            \<and> cli w' = cli w
            \<and> trace w' = trace w1 @
                [Debug (''FTP SEND: 500 Can't accept you - Too many clients '' @
                        Sprintf_d nb @ '' > '' @ Sprintf_d (MaxConnections st) @ [LF]),
                 Send (''500 Can't accept you - Too many clients '' @
                        Sprintf_d nb @ '' > '' @ Sprintf_d (MaxConnections st) @ [CR, LF])] @
                (case transfer (cli w) of Some t \<Rightarrow> [Transfer_Close t] | None \<Rightarrow> []) @
                [Lock,
                 Debug (''Client from '' @ RemoteAddr (conn (cli w)) @ '' disconnected'' @ [LF]),
                 Unlock]))"
proof -
  let ?reg = "AList.update (ch_Id (cli w)) (self w) (connectionsById (daddy w))"
  let ?w1 = "w\<lparr>daddy := (daddy w)\<lparr>connectionsById := ?reg\<rparr>,
                trace := trace w @
                  [Lock, Debug (''Client connected from '' @ RemoteAddr (conn (cli w)) @ [LF]),
                   Unlock]\<rparr>"
  let ?nb = "int (length ?reg)"
  have arr: "clientArrival w =
        Returns (?w1, if ?nb > MaxConnections st
                     then Some (TooManyClients ?nb (MaxConnections st)) else None)"
    using clientArrival_Returns [OF assms] by simp
  have inv: "distinct (map fst (connectionsById (daddy w))) \<longrightarrow>
         distinct (map fst ?reg) \<and> length ?reg = card (dom (map_of ?reg))"
    by (simp add: distinct_update length_registry)
  have rej: "HandleCommands E input w =
      Returns (clientDeparture (end_handler (writeMessage 500
        (''Can't accept you - '' @ Error (TooManyClients ?nb (MaxConnections st))) ?w1)))"
    if "?nb > MaxConnections st"
    using arr that by (intro HandleCommands_rejected) simp
  show ?thesis
    apply (rule exI [of _ ?w1])
    apply (rule exI [of _ ?nb])
    using arr inv rej
    by (simp add: update_lookup clientDeparture_fields end_handler_fields writeMessage_fields
          Sprintf_d_codes)
qed

lemma arrival_rejected:
  "clientArrival example_world = Returns (after_arrival, Some (TooManyClients 3 2))"
  by (simp add: after_arrival_def fixture_defs clientArrival_def debug_def Let_def)

lemma arrival_admitted: "clientArrival roomy_world = Returns (admitted, None)"
  by (simp add: admitted_def fixture_defs clientArrival_def debug_def Let_def)

theorem clientArrival_admission_witness:
  "Settings (daddy example_world) =
     Some \<lparr>ListenHost = ''0.0.0.0'', ListenPort = 2121, PublicHost = [], MaxConnections = 2\<rparr>
   \<and> clientArrival example_world = Returns (after_arrival, Some (TooManyClients 3 2))
   \<and> map_of (connectionsById (daddy after_arrival)) 3 = Some 103
   \<and> length (connectionsById (daddy after_arrival)) = 3
   \<and> HandleCommands strict_env [] example_world = Returns after_rejection
   \<and> Settings (daddy roomy_world) =
     Some \<lparr>ListenHost = ''0.0.0.0'', ListenPort = 2121, PublicHost = [], MaxConnections = 10000\<rparr>
   \<and> clientArrival roomy_world = Returns (admitted, None)
   \<and> map_of (connectionsById (daddy admitted)) 3 = Some 103"
proof -
  have s2: "Settings (daddy example_world) =
     Some \<lparr>ListenHost = ''0.0.0.0'', ListenPort = 2121, PublicHost = [], MaxConnections = 2\<rparr>"
    by (simp add: fixture_defs)
  have s10000: "Settings (daddy roomy_world) =
     Some \<lparr>ListenHost = ''0.0.0.0'', ListenPort = 2121, PublicHost = [], MaxConnections = 10000\<rparr>"
    by (simp add: fixture_defs)
  have ids: "ch_Id (cli example_world) = 3" "self example_world = 103"
    "ch_Id (cli roomy_world) = 3" "self roomy_world = 103"
    by (simp_all add: fixture_defs)
  from clientArrival_admission [OF s2, of strict_env "[]"] arrival_rejected
  have "map_of (connectionsById (daddy after_arrival)) 3 = Some 103"
    by (auto simp: ids)
  moreover have "length (connectionsById (daddy after_arrival)) = 3"
    by (simp add: after_arrival_def)
  moreover from clientArrival_admission [OF s10000, of strict_env "[]"] arrival_admitted
  have "map_of (connectionsById (daddy admitted)) 3 = Some 103"
    by (auto simp: ids)
  ultimately show ?thesis
    using s2 s10000 arrival_rejected arrival_admitted run_rejection by simp
qed

text \<open>
  C2 as stated fails where it says that the caller closes the connection: the session
  over the limit gets its 500 response, and \<^verbatim>\<open>c.conn.Close()\<close> is not among the calls of
  the run.
\<close>

theorem rejected_connection_not_closed:
  "clientArrival example_world = Returns (after_arrival, Some (TooManyClients 3 2))
   \<and> HandleCommands strict_env [] example_world = Returns after_rejection
   \<and> Conn_Close (conn (cli example_world)) \<notin> set (trace after_rejection)"
  by (simp add: arrival_rejected run_rejection) (simp add: after_rejection_def)

section \<open>The driver's disconnect hook\<close>

text \<open>
  C7 (as amended). \<^verbatim>\<open>UserLeft\<close> is deferred after the admission check. A session that
  was admitted calls it on every return of \<^verbatim>\<open>HandleCommands\<close>, authenticated or not: when
  the driver rejects the greeting, and when the loop ends (read error, or no reader after
  \<^verbatim>\<open>QUIT\<close>); it is followed by \<^verbatim>\<open>c.end()\<close> and the departure. A session that was refused
  at admission returns without calling it.
\<close>

theorem UserLeft_after_admission:
  "(\<forall>w1 w'. clientArrival w = Returns (w1, None) \<longrightarrow> HandleCommands E input w = Returns w' \<longrightarrow>
      (\<exists>v. w' = clientDeparture (end_handler (driver_UserLeft v)))
      \<and> Driver_UserLeft \<in> set (trace w'))
   \<and> (\<forall>w1 msg err. clientArrival w = Returns (w1, None) \<longrightarrow>
         WelcomeUser E (cli w1) = (msg, Some err) \<longrightarrow>
         HandleCommands E input w =
           Returns (clientDeparture (end_handler (driver_UserLeft
             (writeMessage 500 msg (w1\<lparr>trace := trace w1 @ [Driver_WelcomeUser]\<rparr>))))))
   \<and> (\<forall>w1 err. clientArrival w = Returns (w1, Some err) \<longrightarrow>
         (\<exists>w' tr. HandleCommands E input w = Returns w'
            \<and> trace w' = trace w @ tr \<and> Driver_UserLeft \<notin> set tr))"
proof (intro conjI allI impI)
  fix w1 w'
  assume a: "clientArrival w = Returns (w1, None)" and r: "HandleCommands E input w = Returns w'"
  obtain msg err where m: "WelcomeUser E (cli w1) = (msg, err)" by (cases "WelcomeUser E (cli w1)")
  show "\<exists>v. w' = clientDeparture (end_handler (driver_UserLeft v))"
  proof (cases err)
    case None
    with HandleCommands_welcome [OF a, of E msg input] m r show ?thesis
      by (auto split: result.splits)
  next
    case (Some e)
    with HandleCommands_unwelcome [OF a, of E msg e input] m r show ?thesis by auto
  qed
  then obtain v where "w' = clientDeparture (end_handler (driver_UserLeft v))" ..
  then show "Driver_UserLeft \<in> set (trace w')"
    by (simp add: clientDeparture_fields end_handler_fields driver_UserLeft_fields)
next
  fix w1 msg err
  assume "clientArrival w = Returns (w1, None)" "WelcomeUser E (cli w1) = (msg, Some err)"
  then show "HandleCommands E input w =
           Returns (clientDeparture (end_handler (driver_UserLeft
             (writeMessage 500 msg (w1\<lparr>trace := trace w1 @ [Driver_WelcomeUser]\<rparr>)))))"
    by (rule HandleCommands_unwelcome)
next
  fix w1 err
  assume a: "clientArrival w = Returns (w1, Some err)"
  then have w1: "cli w1 = cli w" "trace w1 = trace w @
        [Lock, Debug (''Client connected from '' @ RemoteAddr (conn (cli w)) @ [LF]), Unlock]"
    by (auto simp: clientArrival_def Let_def debug_def split: option.splits if_splits)
  show "\<exists>w' tr. HandleCommands E input w = Returns w'
            \<and> trace w' = trace w @ tr \<and> Driver_UserLeft \<notin> set tr"
    by (simp add: HandleCommands_rejected [OF a] clientDeparture_fields end_handler_fields
          writeMessage_fields w1 split: option.splits)
qed

theorem UserLeft_after_admission_witness:
  "clientArrival roomy_world = Returns (admitted, None)
   \<and> HandleCommands unwelcome_env [] roomy_world = Returns after_unwelcome
   \<and> Driver_UserLeft \<in> set (trace after_unwelcome)
   \<and> \<not> isAuthed (cli after_unwelcome)
   \<and> HandleCommands strict_env [([], Some EOF)] roomy_world = Returns after_eof
   \<and> Driver_UserLeft \<in> set (trace after_eof)
   \<and> \<not> isAuthed (cli after_eof)
   \<and> HandleCommands quit_env
        [(''pass x'' @ [CR, LF], None), (''QUIT'' @ [CR, LF], None)] roomy_world =
       Returns after_quit
   \<and> Driver_UserLeft \<in> set (trace after_quit)
   \<and> isAuthed (cli after_quit)"
proof -
  from UserLeft_after_admission [of roomy_world unwelcome_env "[]"] arrival_admitted run_unwelcome
  have "Driver_UserLeft \<in> set (trace after_unwelcome)" by blast
  moreover
  from UserLeft_after_admission [of roomy_world strict_env "[([], Some EOF)]"]
    arrival_admitted run_eof
  have "Driver_UserLeft \<in> set (trace after_eof)" by blast
  moreover
  from UserLeft_after_admission [of roomy_world quit_env
      "[(''pass x'' @ [CR, LF], None), (''QUIT'' @ [CR, LF], None)]"]
    arrival_admitted run_quit
  have "Driver_UserLeft \<in> set (trace after_quit)" by blast
  moreover have "\<not> isAuthed (cli after_unwelcome)" "\<not> isAuthed (cli after_eof)"
    "isAuthed (cli after_quit)"
    by (simp_all add: after_unwelcome_def after_eof_def after_quit_def fixture_defs)
  ultimately show ?thesis
    using arrival_admitted run_unwelcome run_eof run_quit by simp
qed

text \<open>
  C7 as stated fails on the admission rejection: the run of the session over the limit
  returns, and \<^verbatim>\<open>UserLeft\<close> is not among its calls.
\<close>

theorem UserLeft_skipped_on_rejection:
  "clientArrival example_world = Returns (after_arrival, Some (TooManyClients 3 2))
   \<and> HandleCommands strict_env [] example_world = Returns after_rejection
   \<and> Driver_UserLeft \<notin> set (trace after_rejection)"
  by (simp add: arrival_rejected run_rejection) (simp add: after_rejection_def)

section \<open>Shutdown drains, then closes the listener\<close>

lemma Stop_loop_found:
  "allClosed (polls (i + n)) \<Longrightarrow> (\<forall>j<n. \<not> allClosed (polls (i + j))) \<Longrightarrow>
     Stop_loop polls i tr = Some (tr @ concat (replicate n [Lock, Unlock, Sleep 1]) @ [Lock, Unlock])"
proof (induction n arbitrary: i tr)
  case 0
  then show ?case by (subst Stop_loop.simps) simp
next
  case (Suc n)
  from Suc.prems(2) have nc: "\<not> allClosed (polls i)" by (metis add.right_neutral zero_less_Suc)
  have a: "allClosed (polls (Suc i + n))" using Suc.prems(1) by simp
  have b: "\<forall>j<n. \<not> allClosed (polls (Suc i + j))"
  proof (intro allI impI)
    fix j assume "j < n"
    then have "Suc j < Suc n" by simp
    with Suc.prems(2) have "\<not> allClosed (polls (i + Suc j))" by blast
    then show "\<not> allClosed (polls (Suc i + j))" by simp
  qed
  from Suc.IH [OF a b, of "tr @ [Lock, Unlock, Sleep 1]"] nc
  show ?case by (subst Stop_loop.simps) simp
qed

lemma Stop_loop_Some:
  assumes "Stop_loop polls i tr = Some y"
  shows "\<exists>n. allClosed (polls (i + n))"
proof (rule Stop_loop.raw_induct [where P = "\<lambda>polls i tr y. \<exists>n. allClosed (polls (i + n))"])
  show "Stop_loop polls i tr = Some y" by fact
next
  fix f :: "(nat \<Rightarrow> snapshot) \<Rightarrow> nat \<Rightarrow> event list \<Rightarrow> event list option"
    and polls i tr y
  assume IH: "\<And>polls i tr y. f polls i tr = Some y \<Longrightarrow> \<exists>n. allClosed (polls (i + n))"
    and body: "(if allClosed (polls i) then Some (tr @ [Lock, Unlock])
      else f polls (Suc i) (tr @ [Lock, Unlock, Sleep 1])) = Some y"
  show "\<exists>n. allClosed (polls (i + n))"
  proof (cases "allClosed (polls i)")
    case True
    then have "allClosed (polls (i + 0))" by simp
    then show ?thesis by blast
  next
    case False
    with body have "f polls (Suc i) (tr @ [Lock, Unlock, Sleep 1]) = Some y" by simp
    from IH [OF this] obtain n where "allClosed (polls (Suc i + n))" ..
    then have "allClosed (polls (i + Suc n))" by simp
    then show ?thesis by blast
  qed
qed

lemma Stop_loop_None: "(\<forall>n. \<not> allClosed (polls n)) \<Longrightarrow> Stop_loop polls i tr = None"
  using Stop_loop_Some [of polls i tr] by (cases "Stop_loop polls i tr") auto


lemma Stop_loop_first:
  assumes "allClosed (polls n)" and "\<forall>i<n. \<not> allClosed (polls i)"
  shows "Stop_loop polls 0 [] = Some (concat (replicate n [Lock, Unlock, Sleep 1]) @ [Lock, Unlock])"
  using Stop_loop_found [of polls 0 n "[]"] assms by simp

lemma allClosed_iff:
  "allClosed sn \<longleftrightarrow> (\<forall>(k, p) \<in> set (fst sn). transfer (snd sn p) = None)"
  by (auto simp: allClosed_def IsTransferClosed_def list_all_iff)

text \<open>
  C3 (as amended). \<^verbatim>\<open>Stop\<close> scans the registry under the lock and sleeps one second
  after every scan that finds a session with an open transfer channel. It returns exactly
  when some scan finds every registered session with \<^verbatim>\<open>IsTransferClosed()\<close> true: then it
  has slept once per earlier scan, and its last call, the only one on the listener, is
  \<^verbatim>\<open>Listener.Close()\<close>. With an empty registry at the first scan it closes the listener
  without sleeping. When no scan ever finds all channels closed it does not return.
\<close>

theorem Stop_drains:
  "(\<forall>n l. Listener server = Some l \<and> allClosed (polls n) \<and> (\<forall>i<n. \<not> allClosed (polls i)) \<longrightarrow>
      Stop polls server = Returns (concat (replicate n [Lock, Unlock, Sleep 1]) @ [Lock, Unlock, Listener_Close l]))
   \<and> (\<forall>l. Listener server = Some l \<and> fst (polls 0) = [] \<longrightarrow>
        Stop polls server = Returns [Lock, Unlock, Listener_Close l])
   \<and> (\<forall>tr. Stop polls server = Returns tr \<longrightarrow>
        (\<exists>n l. Listener server = Some l
           \<and> (\<forall>(k, p) \<in> set (fst (polls n)). IsTransferClosed (snd (polls n) p))
           \<and> (\<forall>i<n. \<not> allClosed (polls i))
           \<and> tr = concat (replicate n [Lock, Unlock, Sleep 1]) @ [Lock, Unlock, Listener_Close l]))
   \<and> ((\<forall>n. \<not> allClosed (polls n)) \<longrightarrow> Stop polls server = Blocks)"
proof (intro conjI allI impI)
  fix n l
  assume "Listener server = Some l \<and> allClosed (polls n) \<and> (\<forall>i<n. \<not> allClosed (polls i))"
  then have l: "Listener server = Some l" and c: "allClosed (polls n)"
    and f: "\<forall>i<n. \<not> allClosed (polls i)" by blast+
  from Stop_loop_first [OF c f] l
  show "Stop polls server = Returns (concat (replicate n [Lock, Unlock, Sleep 1]) @ [Lock, Unlock, Listener_Close l])"
    by (simp add: Stop_def)
next
  fix l
  assume a: "Listener server = Some l \<and> fst (polls 0) = []"
  then have "allClosed (polls 0)" by (simp add: allClosed_def)
  from Stop_loop_first [of polls 0, OF this] a
  show "Stop polls server = Returns [Lock, Unlock, Listener_Close l]"
    by (simp add: Stop_def)
next
  fix tr
  assume r: "Stop polls server = Returns tr"
  then obtain y l where y: "Stop_loop polls 0 [] = Some y" and l: "Listener server = Some l"
    by (auto simp: Stop_def split: option.splits)
  from Stop_loop_Some [OF y] obtain m where "allClosed (polls m)" by auto
  then have ex: "\<exists>m. allClosed (polls m)" ..
  define n where "n = (LEAST m. allClosed (polls m))"
  have n: "allClosed (polls n)" unfolding n_def using ex by (rule LeastI_ex)
  have less: "\<forall>i<n. \<not> allClosed (polls i)"
    unfolding n_def using not_less_Least by blast
  from Stop_loop_first [OF n less] y have "y = concat (replicate n [Lock, Unlock, Sleep 1]) @ [Lock, Unlock]" by simp
  with r y l have "tr = concat (replicate n [Lock, Unlock, Sleep 1]) @ [Lock, Unlock, Listener_Close l]"
    by (simp add: Stop_def)
  with n less l
  show "\<exists>n l. Listener server = Some l
           \<and> (\<forall>(k, p) \<in> set (fst (polls n)). IsTransferClosed (snd (polls n) p))
           \<and> (\<forall>i<n. \<not> allClosed (polls i))
           \<and> tr = concat (replicate n [Lock, Unlock, Sleep 1]) @ [Lock, Unlock, Listener_Close l]"
    by (auto simp: allClosed_def list_all_iff)
next
  assume "\<forall>n. \<not> allClosed (polls n)"
  then show "Stop polls server = Blocks"
    by (simp add: Stop_def Stop_loop_None)
qed

lemma drain_0: "\<not> allClosed (drain_polls 0)"
  by (simp add: drain_polls_def allClosed_def IsTransferClosed_def)

lemma drain_1: "allClosed (drain_polls 1)"
  by (simp add: drain_polls_def allClosed_def IsTransferClosed_def example_client_def)

theorem Stop_drains_witness:
  "Listener example_server = Some 1
   \<and> \<not> allClosed (drain_polls 0) \<and> allClosed (drain_polls 1)
   \<and> Stop drain_polls example_server =
       Returns [Lock, Unlock, Sleep 1, Lock, Unlock, Listener_Close 1]
   \<and> fst (idle_polls 0) = []
   \<and> Stop idle_polls example_server = Returns [Lock, Unlock, Listener_Close 1]"
proof -
  have l: "Listener example_server = Some 1" by (simp add: example_server_def)
  have e: "fst (idle_polls 0) = []" by (simp add: idle_polls_def)
  have s: "concat (replicate 1 [Lock, Unlock, Sleep 1]) = [Lock, Unlock, Sleep 1]" by simp
  from Stop_drains [of example_server drain_polls] l drain_0 drain_1
  have "Stop drain_polls example_server = Returns (concat (replicate 1 [Lock, Unlock, Sleep 1]) @ [Lock, Unlock, Listener_Close 1])"
    by (metis less_one)
  moreover from Stop_drains [of example_server idle_polls] l e
  have "Stop idle_polls example_server = Returns [Lock, Unlock, Listener_Close 1]"
    by blast
  ultimately show ?thesis using l e s drain_0 drain_1 by simp
qed

text \<open>
  C3 as stated fails where it says that \<^verbatim>\<open>Stop\<close> first stops accepting connections: with
  a channel open at the first scan, \<^verbatim>\<open>Stop\<close> sleeps with the listener still open, and closes
  it only after the scan that finds the channel closed.
\<close>

theorem Stop_accepts_while_draining:
  "Stop drain_polls example_server =
     Returns [Lock, Unlock, Sleep 1, Lock, Unlock, Listener_Close 1]"
proof -
  have "Stop_loop drain_polls 0 [] = Some [Lock, Unlock, Sleep 1, Lock, Unlock]"
    using Stop_loop_found [of drain_polls 0 1 "[]"] drain_0 drain_1 by simp
  then show ?thesis by (simp add: Stop_def example_server_def)
qed

section \<open>Session ids\<close>

lemma NewClientHandler_id:
  "ch_Id (snd (NewClientHandler now server connection)) = clientCounter server + 1"
  "clientCounter (fst (NewClientHandler now server connection)) = clientCounter server + 1"
  by (simp_all add: NewClientHandler_def Let_def)

lemma acceptLoop_ids:
  "acceptLoop server accepts = (server', cs, r) \<Longrightarrow> k < length cs \<Longrightarrow>
     ch_Id (cs ! k) = clientCounter server + of_nat (Suc k)"
proof (induction accepts arbitrary: server server' cs r k)
  case Nil
  then show ?case by simp
next
  case (Cons a accepts)
  obtain now connection err where a: "a = (now, connection, err)" by (cases a)
  show ?case
  proof (cases err)
    case (Some e)
    with Cons.prems a show ?thesis by simp
  next
    case None
    obtain server1 c where n: "NewClientHandler now server connection = (server1, c)"
      by (cases "NewClientHandler now server connection")
    obtain server2 cs' r' where l: "acceptLoop server1 accepts = (server2, cs', r')"
      by (cases "acceptLoop server1 accepts")
    from Cons.prems(1) a None n l have cs: "cs = c # cs'" by simp
    from n NewClientHandler_id [of now server connection]
    have c: "ch_Id c = clientCounter server + 1" "clientCounter server1 = clientCounter server + 1"
      by simp_all
    show ?thesis
    proof (cases k)
      case 0
      with cs c show ?thesis by simp
    next
      case (Suc k')
      with Cons.prems(2) cs have "k' < length cs'" by simp
      from Cons.IH [OF l this] c Suc cs show ?thesis by (simp add: add.assoc)
    qed
  qed
qed

lemma acceptLoop_replicate:
  "length (fst (snd (acceptLoop server (replicate n (now, connection, None))))) = n"
  by (induction n arbitrary: server) (simp_all add: split_beta Let_def)

text \<open>
  C9 (as amended). The id of a new session is the counter plus one in 32-bit
  arithmetic, and the counter takes that value. Of the sessions created by one run of
  the accept loop, two that are fewer than \<open>2 ^ 32\<close> acceptances apart have different ids,
  and as long as the counter has not wrapped the later session has the greater id.
\<close>

theorem session_ids_modulo:
  "ch_Id (snd (NewClientHandler now server connection)) = clientCounter server + 1
   \<and> clientCounter (fst (NewClientHandler now server connection)) =
       ch_Id (snd (NewClientHandler now server connection))
   \<and> unat (ch_Id (snd (NewClientHandler now server connection))) =
       (unat (clientCounter server) + 1) mod 2 ^ 32
   \<and> (\<forall>server' cs r i j. acceptLoop server accepts = (server', cs, r) \<longrightarrow>
         i < j \<longrightarrow> j < length cs \<longrightarrow>
           (j - i < 2 ^ 32 \<longrightarrow> ch_Id (cs ! i) \<noteq> ch_Id (cs ! j))
         \<and> (unat (clientCounter server) + length cs < 2 ^ 32 \<longrightarrow> ch_Id (cs ! i) < ch_Id (cs ! j)))"
proof (intro conjI allI impI)
  show "ch_Id (snd (NewClientHandler now server connection)) = clientCounter server + 1"
    by (simp add: NewClientHandler_id)
  show "clientCounter (fst (NewClientHandler now server connection)) =
       ch_Id (snd (NewClientHandler now server connection))"
    by (simp add: NewClientHandler_id)
  show "unat (ch_Id (snd (NewClientHandler now server connection))) =
       (unat (clientCounter server) + 1) mod 2 ^ 32"
    by (simp add: NewClientHandler_id unat_word_ariths)
next
  fix server' cs r i j
  assume a: "acceptLoop server accepts = (server', cs, r)" and ij: "i < j" and j: "j < length cs"
    and d: "j - i < 2 ^ 32"
  from ij j have i: "i < length cs" by simp
  have "(of_nat (j - i) :: 32 word) \<noteq> 0"
    using ij d by (intro of_nat_neq_0) simp_all
  moreover have "(of_nat (Suc j) :: 32 word) = of_nat (Suc i) + of_nat (j - i)"
    using ij by (simp flip: of_nat_add)
  ultimately have "clientCounter server + of_nat (Suc i) \<noteq> clientCounter server + of_nat (Suc j)"
    by simp
  with acceptLoop_ids [OF a i] acceptLoop_ids [OF a j]
  show "ch_Id (cs ! i) \<noteq> ch_Id (cs ! j)" by simp
next
  fix server' cs r i j
  assume a: "acceptLoop server accepts = (server', cs, r)" and ij: "i < j" and j: "j < length cs"
    and b: "unat (clientCounter server) + length cs < 2 ^ 32"
  from ij j have i: "i < length cs" by simp
  have u: "unat (clientCounter server + of_nat (Suc k)) = unat (clientCounter server) + Suc k"
    if "k < length cs" for k
  proof -
    have "unat (clientCounter server) + Suc k < 2 ^ 32" using that b by simp
    then show ?thesis
      by (simp add: unat_word_ariths unat_of_nat take_bit_eq_mod)
  qed
  from u [OF i] u [OF j] ij
  have "unat (clientCounter server + of_nat (Suc i)) < unat (clientCounter server + of_nat (Suc j))"
    by simp
  then have "clientCounter server + of_nat (Suc i) < clientCounter server + of_nat (Suc j)"
    by (simp add: word_less_nat_alt)
  with acceptLoop_ids [OF a i] acceptLoop_ids [OF a j]
  show "ch_Id (cs ! i) < ch_Id (cs ! j)" by simp
qed


theorem session_ids_modulo_witness:
  "acceptLoop (NewFtpServer 0)
       [(1, example_conn, None), (2, example_conn, None), (3, example_conn, None)] =
     (NewFtpServer 0\<lparr>clientCounter := 3\<rparr>,
      map (\<lambda>(t, n). example_client\<lparr>ch_Id := n, connectedAt := t\<rparr>) [(1, 1), (2, 2), (3, 3)],
      Blocks)
   \<and> ch_Id (example_client\<lparr>ch_Id := 1, connectedAt := 1\<rparr>)
       \<noteq> ch_Id (example_client\<lparr>ch_Id := 3, connectedAt := 3\<rparr>)
   \<and> ch_Id (example_client\<lparr>ch_Id := 1, connectedAt := 1\<rparr>)
       < ch_Id (example_client\<lparr>ch_Id := 3, connectedAt := 3\<rparr>)"
proof -
  let ?cs = "map (\<lambda>(t, n). example_client\<lparr>ch_Id := n, connectedAt := t\<rparr>) [(1, 1), (2, 2), (3, 3)]"
  have run: "acceptLoop (NewFtpServer 0)
       [(1, example_conn, None), (2, example_conn, None), (3, example_conn, None)] =
     (NewFtpServer 0\<lparr>clientCounter := 3\<rparr>, ?cs, Blocks)"
    by (simp add: NewFtpServer_def NewClientHandler_def Let_def example_client_def)
  have c0: "unat (clientCounter (NewFtpServer 0)) + length ?cs < 2 ^ 32"
    by (simp add: NewFtpServer_def)
  from session_ids_modulo [of 0 "NewFtpServer 0" example_conn
      "[(1, example_conn, None), (2, example_conn, None), (3, example_conn, None)]"] run
  have "0 < (2::nat) \<longrightarrow> 2 < length ?cs \<longrightarrow>
           (2 - 0 < (2::nat) ^ 32 \<longrightarrow> ch_Id (?cs ! 0) \<noteq> ch_Id (?cs ! 2))
         \<and> (unat (clientCounter (NewFtpServer 0)) + length ?cs < 2 ^ 32 \<longrightarrow>
              ch_Id (?cs ! 0) < ch_Id (?cs ! 2))"
    by blast
  with c0 have "ch_Id (?cs ! 0) \<noteq> ch_Id (?cs ! 2) \<and> ch_Id (?cs ! 0) < ch_Id (?cs ! 2)"
    by simp
  then show ?thesis using run by simp
qed

text \<open>
  C9 as stated fails at the wrap of the counter: after the id \<open>4294967295\<close> the next id
  is \<open>0\<close>, and on a new server the session accepted \<open>2 ^ 32\<close> acceptances after the first
  gets the first one's id, \<open>1\<close>.
\<close>

theorem session_id_reused:
  "ch_Id (snd (NewClientHandler 0 (NewFtpServer 0\<lparr>clientCounter := 0xFFFFFFFF\<rparr>) example_conn)) = 0
   \<and> ch_Id (fst (snd (acceptLoop (NewFtpServer 0)
               (replicate (2 ^ 32 + 1) (0, example_conn, None)))) ! 0) = 1
   \<and> ch_Id (fst (snd (acceptLoop (NewFtpServer 0)
               (replicate (2 ^ 32 + 1) (0, example_conn, None)))) ! (2 ^ 32)) = 1"
proof -
  define accepts :: "(nat \<times> net_Conn \<times> error option) list"
    where "accepts = replicate (2 ^ 32 + 1) (0, example_conn, None)"
  obtain server' cs r where run: "acceptLoop (NewFtpServer 0) accepts = (server', cs, r)"
    by (cases "acceptLoop (NewFtpServer 0) accepts")
  have "length (fst (snd (acceptLoop (NewFtpServer 0) accepts))) = 2 ^ 32 + 1"
    unfolding accepts_def by (rule acceptLoop_replicate)
  with run have len: "length cs = 2 ^ 32 + 1" by simp
  have c0: "clientCounter (NewFtpServer 0) = 0" by (simp add: NewFtpServer_def)
  have "ch_Id (cs ! 0) = 1"
    using acceptLoop_ids [OF run, of 0] len c0 by simp
  moreover have "ch_Id (cs ! (2 ^ 32)) = 1"
    using acceptLoop_ids [OF run, of "2 ^ 32"] len c0 by simp
  moreover have "ch_Id (snd (NewClientHandler 0 (NewFtpServer 0\<lparr>clientCounter := 0xFFFFFFFF\<rparr>)
      example_conn)) = 0"
    by (simp add: NewClientHandler_id)
  ultimately show ?thesis using run unfolding accepts_def by simp
qed

section \<open>The shape of a parsed line\<close>

lemma Trim_shape:
  "\<exists>pre suf. s = pre @ Trim s cs @ suf \<and> set pre \<subseteq> set cs \<and> set suf \<subseteq> set cs
     \<and> (Trim s cs \<noteq> [] \<longrightarrow> hd (Trim s cs) \<notin> set cs \<and> last (Trim s cs) \<notin> set cs)"
proof -
  let ?P = "\<lambda>c. c \<in> set cs"
  let ?m = "dropWhile ?P s"
  let ?t = "rev (dropWhile ?P (rev ?m))"
  let ?suf = "rev (takeWhile ?P (rev ?m))"
  have t: "Trim s cs = ?t" by (simp add: Trim_def)
  have "?t @ ?suf = rev (takeWhile ?P (rev ?m) @ dropWhile ?P (rev ?m))"
    by (simp only: rev_append)
  also have "\<dots> = rev (rev ?m)" by (simp only: takeWhile_dropWhile_id)
  finally have m: "?m = ?t @ ?suf" by simp
  have s: "s = takeWhile ?P s @ ?t @ ?suf" using m by (metis takeWhile_dropWhile_id)
  have pre: "set (takeWhile ?P s) \<subseteq> set cs" by (auto dest: set_takeWhileD)
  have suf: "set ?suf \<subseteq> set cs"
  proof
    fix x assume "x \<in> set ?suf"
    then have "x \<in> set (takeWhile ?P (rev ?m))" by (simp only: set_rev)
    then have "x \<in> set (rev ?m) \<and> ?P x" by (rule set_takeWhileD)
    then show "x \<in> set cs" by simp
  qed
  have ends: "hd ?t \<notin> set cs \<and> last ?t \<notin> set cs" if ne: "?t \<noteq> []"
  proof
    have mne: "?m \<noteq> []"
    proof
      assume e: "?m = []"
      have "?t = []" unfolding e by simp
      with ne show False by simp
    qed
    from ne m have "hd ?t = hd ?m" by (metis hd_append2)
    moreover from mne have "\<not> ?P (hd ?m)" by (rule hd_dropWhile)
    ultimately show "hd ?t \<notin> set cs" by simp
    from ne have d: "dropWhile ?P (rev ?m) \<noteq> []" by simp
    then have "\<not> ?P (hd (dropWhile ?P (rev ?m)))" by (rule hd_dropWhile)
    moreover from d have "last ?t = hd (dropWhile ?P (rev ?m))" by (simp add: last_rev)
    ultimately show "last ?t \<notin> set cs" by simp
  qed
  show ?thesis
    apply (rule exI [of _ "takeWhile ?P s"])
    apply (rule exI [of _ ?suf])
    using s pre suf ends t by simp
qed

lemma leadingSpace_zero:
  "leadingSpace seqs s = 0 \<longleftrightarrow> \<not> (\<exists>w \<in> set seqs. w \<noteq> [] \<and> prefix w s)"
proof -
  have p: "take (length w) s = w \<longleftrightarrow> prefix w s" for w
    by (metis append_eq_conv_conj prefix_def take_is_prefix)
  show ?thesis
    by (auto simp: leadingSpace_def find_None_iff find_Some_iff p split: option.splits)
qed

lemma leadingSpace_pos:
  assumes "leadingSpace seqs s \<noteq> 0"
  shows "\<exists>w \<in> set seqs. length w = leadingSpace seqs s \<and> s = w @ drop (leadingSpace seqs s) s"
proof -
  from assms obtain w where f: "find (\<lambda>w. w \<noteq> [] \<and> take (length w) s = w) seqs = Some w"
    by (auto simp: leadingSpace_def split: option.splits)
  then have w: "w \<in> set seqs" "take (length w) s = w"
    by (auto simp: find_Some_iff)
  from f have n: "leadingSpace seqs s = length w" by (simp add: leadingSpace_def)
  from w(2) have "s = w @ drop (length w) s" by (metis append_take_drop_id)
  with w n show ?thesis by auto
qed

lemma trimLeftSeqs_shape:
  "\<exists>lead. set lead \<subseteq> set seqs \<and> s = concat lead @ trimLeftSeqs seqs s
      \<and> leadingSpace seqs (trimLeftSeqs seqs s) = 0"
proof (induction seqs s rule: trimLeftSeqs.induct)
  case (1 seqs s)
  show ?case
  proof (cases "leadingSpace seqs s = 0")
    case True
    then have "trimLeftSeqs seqs s = s" by (subst trimLeftSeqs.simps) simp
    with True have "set [] \<subseteq> set seqs \<and> s = concat [] @ trimLeftSeqs seqs s
      \<and> leadingSpace seqs (trimLeftSeqs seqs s) = 0" by simp
    then show ?thesis by blast
  next
    case False
    let ?r = "drop (leadingSpace seqs s) s"
    from False have t: "trimLeftSeqs seqs s = trimLeftSeqs seqs ?r"
      by (subst trimLeftSeqs.simps) simp
    from leadingSpace_pos [OF False] obtain w where w: "w \<in> set seqs" "s = w @ ?r" by blast
    from "1.IH" [OF False] obtain lead where l: "set lead \<subseteq> set seqs"
      "?r = concat lead @ trimLeftSeqs seqs ?r" "leadingSpace seqs (trimLeftSeqs seqs ?r) = 0"
      by blast
    from w(2) l(2) have "s = concat (w # lead) @ trimLeftSeqs seqs ?r" by simp
    with w(1) l t have "set (w # lead) \<subseteq> set seqs \<and> s = concat (w # lead) @ trimLeftSeqs seqs s
      \<and> leadingSpace seqs (trimLeftSeqs seqs s) = 0" by simp
    then show ?thesis by blast
  qed
qed

lemma TrimSpace_shape:
  "\<exists>lead trail. s = concat lead @ TrimSpace s @ concat trail
     \<and> set lead \<subseteq> set unicodeSpaces \<and> set trail \<subseteq> set unicodeSpaces
     \<and> \<not> (\<exists>w \<in> set unicodeSpaces. prefix w (TrimSpace s))
     \<and> \<not> (\<exists>w \<in> set unicodeSpaces. suffix w (TrimSpace s))"
proof -
  let ?l = "TrimLeftSpace s"
  let ?a = "TrimSpace s"
  have ne: "[] \<notin> set unicodeSpaces" by (simp add: unicodeSpaces_def)
  from trimLeftSeqs_shape [of unicodeSpaces s] obtain lead where
    lead: "set lead \<subseteq> set unicodeSpaces" "s = concat lead @ ?l" "leadingSpace unicodeSpaces ?l = 0"
    by (auto simp: TrimLeftSpace_def)
  from trimLeftSeqs_shape [of "map rev unicodeSpaces" "rev ?l"] obtain rt where
    rt: "set rt \<subseteq> set (map rev unicodeSpaces)" "rev ?l = concat rt @ rev ?a"
      "leadingSpace (map rev unicodeSpaces) (rev ?a) = 0"
    by (auto simp: TrimSpace_def TrimRightSpace_def)
  let ?trail = "map rev (rev rt)"
  from rt(2) have "rev (rev ?l) = rev (concat rt @ rev ?a)" by (rule arg_cong)
  then have l: "?l = ?a @ concat ?trail" by (simp add: rev_concat)
  have trail: "set ?trail \<subseteq> set unicodeSpaces"
  proof
    fix x assume "x \<in> set ?trail"
    then obtain y where y: "y \<in> set rt" "x = rev y" by auto
    with rt(1) obtain z where "z \<in> set unicodeSpaces" "y = rev z" by auto
    with y show "x \<in> set unicodeSpaces" by simp
  qed
  have nopre: "\<not> (\<exists>w \<in> set unicodeSpaces. prefix w ?a)"
  proof
    assume "\<exists>w \<in> set unicodeSpaces. prefix w ?a"
    then obtain w where w: "w \<in> set unicodeSpaces" "prefix w ?a" by blast
    from w(2) l have "prefix w ?l" by (metis prefix_prefix)
    with w(1) ne lead(3) show False by (auto simp: leadingSpace_zero)
  qed
  have nosuf: "\<not> (\<exists>w \<in> set unicodeSpaces. suffix w ?a)"
  proof
    assume "\<exists>w \<in> set unicodeSpaces. suffix w ?a"
    then obtain w where w: "w \<in> set unicodeSpaces" "suffix w ?a" by blast
    then have "rev w \<in> set (map rev unicodeSpaces)" "rev w \<noteq> []" "prefix (rev w) (rev ?a)"
      using ne by (auto simp: suffix_to_prefix)
    with rt(3) show False by (auto simp: leadingSpace_zero)
  qed
  from lead(2) l have "s = concat lead @ ?a @ concat ?trail" by simp
  with lead(1) trail nopre nosuf show ?thesis by blast
qed

lemma SplitN_shape:
  "(sep \<notin> set s \<longrightarrow> SplitN s sep = [s])
   \<and> (sep \<in> set s \<longrightarrow> (\<exists>a b. SplitN s sep = [a, b] \<and> s = a @ sep # b \<and> sep \<notin> set a))"
proof (intro conjI impI)
  assume "sep \<notin> set s" then show "SplitN s sep = [s]" by (simp add: SplitN_def)
next
  assume m: "sep \<in> set s"
  let ?a = "takeWhile (\<lambda>c. c \<noteq> sep) s" and ?d = "dropWhile (\<lambda>c. c \<noteq> sep) s"
  from m have dne: "?d \<noteq> []" by auto
  then have "\<not> (hd ?d \<noteq> sep)" by (rule hd_dropWhile)
  with dne have d: "?d = sep # tl ?d" by (cases ?d) auto
  have "s = ?a @ ?d" by simp
  with d have s: "s = ?a @ sep # tl ?d" by simp
  have a: "sep \<notin> set ?a" by (auto dest: set_takeWhileD)
  from m have "SplitN s sep = [?a, tl ?d]" by (simp add: SplitN_def)
  with s a show "\<exists>a b. SplitN s sep = [a, b] \<and> s = a @ sep # b \<and> sep \<notin> set a" by blast
qed

lemma lookup_cases:
  assumes "length xs = length ys"
  shows "c \<in> set xs \<and> (case map_of (zip xs ys) c of Some u \<Rightarrow> u | None \<Rightarrow> c) \<in> set ys
       \<or> c \<notin> set xs \<and> (case map_of (zip xs ys) c of Some u \<Rightarrow> u | None \<Rightarrow> c) = c"
proof (cases "c \<in> set xs")
  case True
  with assms obtain y where y: "map_of (zip xs ys) c = Some y"
    using map_of_zip_is_Some by fastforce
  then have "(c, y) \<in> set (zip xs ys)" by (rule map_of_SomeD)
  then have "y \<in> set ys" by (rule set_zip_rightD)
  with True y show ?thesis by simp
next
  case False
  with assms have "map_of (zip xs ys) c = None" by (simp add: map_of_zip_is_None)
  with False show ?thesis by simp
qed

lemma upperByte_cases:
  "c \<in> set ''abcdefghijklmnopqrstuvwxyz'' \<and> upperByte c \<in> set ''ABCDEFGHIJKLMNOPQRSTUVWXYZ''
   \<or> c \<notin> set ''abcdefghijklmnopqrstuvwxyz'' \<and> upperByte c = c"
  unfolding upperByte_def by (rule lookup_cases) simp

lemma upper_lower_disjoint:
  "u \<in> set ''ABCDEFGHIJKLMNOPQRSTUVWXYZ'' \<Longrightarrow> u \<notin> set ''abcdefghijklmnopqrstuvwxyz''"
  by auto

lemma upper_ASCII: "u \<in> set ''ABCDEFGHIJKLMNOPQRSTUVWXYZ'' \<Longrightarrow> isASCII u"
  by (auto simp: isASCII_def)


lemma upperByte_not_lower: "upperByte c \<notin> set ''abcdefghijklmnopqrstuvwxyz''"
  using upperByte_cases [of c] upper_lower_disjoint [of "upperByte c"] by metis

lemma upperByte_idem: "upperByte (upperByte c) = upperByte c"
  using upperByte_cases [of "upperByte c"] upperByte_not_lower [of c] by metis

lemma upperByte_ASCII: "isASCII c \<Longrightarrow> isASCII (upperByte c)"
  using upperByte_cases [of c] upper_ASCII [of "upperByte c"] by metis

lemma ToUpper_ASCII:
  assumes "list_all isASCII v"
  shows "ToUpper f v = map upperByte v"
    and "\<forall>c \<in> set (ToUpper f v). c \<notin> set ''abcdefghijklmnopqrstuvwxyz''"
    and "ToUpper f (ToUpper f v) = ToUpper f v"
proof -
  show u: "ToUpper f v = map upperByte v" using assms by (simp add: ToUpper_def)
  show "\<forall>c \<in> set (ToUpper f v). c \<notin> set ''abcdefghijklmnopqrstuvwxyz''"
  proof
    fix c assume "c \<in> set (ToUpper f v)"
    with u obtain d where "c = upperByte d" by auto
    then show "c \<notin> set ''abcdefghijklmnopqrstuvwxyz''" by (simp only: upperByte_not_lower not_False_eq_True)
  qed
  have "list_all isASCII (map upperByte v)"
    using assms by (simp only: list_all_iff set_map ball_imageD) (blast intro: upperByte_ASCII)
  then show "ToUpper f (ToUpper f v) = ToUpper f v"
    unfolding u by (simp add: ToUpper_def upperByte_idem)
qed

lemma handleCommand_flow:
  "handleCommand E line w =
     (let w2 = w\<lparr>trace := trace w @ [Debug (''FTP RECV: '' @ line @ [LF])],
                   cli := (cli w)\<lparr>command := ToUpper (unicodeUpper E) (fst (parseLine line)),
                                 param := snd (parseLine line)\<rparr>\<rparr>
      in if command (cli w2) \<noteq> ''USER'' \<and> command (cli w2) \<noteq> ''PASS'' \<and> \<not> isAuthed (cli w)
         then Returns (writeMessage 530 ''Please login with USER and PASS'' w2)
         else (case commandsMap (command (cli w2)) of
                 None \<Rightarrow> Returns (writeMessage 550 ''Not handled'' w2)
               | Some fn \<Rightarrow> handlers E fn w2))"
  by (simp add: handleCommand_def Let_def split_beta debug_def cong: option.case_cong if_cong)

lemma parseLine_with_space:
  assumes "SP \<in> set (Trim line [CR, LF])"
  shows "\<exists>verb rest lead arg trail.
            Trim line [CR, LF] = verb @ SP # rest \<and> SP \<notin> set verb
          \<and> rest = concat lead @ arg @ concat trail
          \<and> set lead \<subseteq> set unicodeSpaces \<and> set trail \<subseteq> set unicodeSpaces
          \<and> \<not> (\<exists>sp \<in> set unicodeSpaces. prefix sp arg)
          \<and> \<not> (\<exists>sp \<in> set unicodeSpaces. suffix sp arg)
          \<and> parseLine line = (verb, arg)"
proof -
  from assms SplitN_shape [of SP "Trim line [CR, LF]"] obtain verb rest where
    v: "SplitN (Trim line [CR, LF]) SP = [verb, rest]"
       "Trim line [CR, LF] = verb @ SP # rest" "SP \<notin> set verb" by blast
  from v(1) have "parseLine line = (verb, TrimSpace rest)"
    by (simp add: parseLine_def Let_def)
  with v(2,3) TrimSpace_shape [of rest] show ?thesis by blast
qed

text \<open>
  C4 (as amended). Parsing removes every leading and every trailing \<open>CR\<close> and \<open>LF\<close>
  of the line, not only the terminator at its end. What is left is split at its first
  space: without a space it is the verb and the argument is empty; with one, the verb is
  the part before it and the argument is the part after it without its leading and
  trailing white space (the runes of \<^const>\<open>unicodeSpaces\<close>), unchanged in between, spaces
  included. The loop stores the upper-cased verb and the argument in the session before
  the gate and the dispatch, which both read the stored verb; a verb of ASCII bytes is
  upper-cased byte by byte and has no letter a to z left.
\<close>

theorem parseLine_shape:
  "(\<exists>pre s suf.
      line = pre @ s @ suf \<and> set pre \<subseteq> {CR, LF} \<and> set suf \<subseteq> {CR, LF}
    \<and> (s \<noteq> [] \<longrightarrow> hd s \<notin> {CR, LF} \<and> last s \<notin> {CR, LF})
    \<and> (SP \<notin> set s \<longrightarrow> parseLine line = (s, []))
    \<and> (SP \<in> set s \<longrightarrow>
         (\<exists>verb rest lead arg trail.
            s = verb @ SP # rest \<and> SP \<notin> set verb
          \<and> rest = concat lead @ arg @ concat trail
          \<and> set lead \<subseteq> set unicodeSpaces \<and> set trail \<subseteq> set unicodeSpaces
          \<and> \<not> (\<exists>sp \<in> set unicodeSpaces. prefix sp arg)
          \<and> \<not> (\<exists>sp \<in> set unicodeSpaces. suffix sp arg)
          \<and> parseLine line = (verb, arg))))
   \<and> handleCommand E line w =
       (let w2 = w\<lparr>trace := trace w @ [Debug (''FTP RECV: '' @ line @ [LF])],
                     cli := (cli w)\<lparr>command := ToUpper (unicodeUpper E) (fst (parseLine line)),
                                   param := snd (parseLine line)\<rparr>\<rparr>
        in if command (cli w2) \<noteq> ''USER'' \<and> command (cli w2) \<noteq> ''PASS'' \<and> \<not> isAuthed (cli w)
           then Returns (writeMessage 530 ''Please login with USER and PASS'' w2)
           else (case commandsMap (command (cli w2)) of
                   None \<Rightarrow> Returns (writeMessage 550 ''Not handled'' w2)
                 | Some fn \<Rightarrow> handlers E fn w2))
   \<and> (list_all isASCII (fst (parseLine line)) \<longrightarrow>
         ToUpper (unicodeUpper E) (fst (parseLine line)) = map upperByte (fst (parseLine line))
       \<and> (\<forall>c \<in> set (ToUpper (unicodeUpper E) (fst (parseLine line))).
             c \<notin> set ''abcdefghijklmnopqrstuvwxyz''))"
  (is "?shape \<and> ?flow \<and> ?upper")
proof (intro conjI)
  let ?s = "Trim line [CR, LF]"
  from Trim_shape [of line "[CR, LF]"] obtain pre suf where
    "line = pre @ ?s @ suf" "set pre \<subseteq> {CR, LF}" "set suf \<subseteq> {CR, LF}"
    "?s \<noteq> [] \<longrightarrow> hd ?s \<notin> {CR, LF} \<and> last ?s \<notin> {CR, LF}"
    by auto
  moreover have "SP \<notin> set ?s \<longrightarrow> parseLine line = (?s, [])"
    using SplitN_shape [of SP ?s] by (simp add: parseLine_def Let_def)
  ultimately show ?shape using parseLine_with_space [of line] by blast
  show ?flow by (rule handleCommand_flow)
  show ?upper using ToUpper_ASCII(1,2) by blast
qed

lemmas parse_defs = parseLine_def SplitN_def Trim_def TrimSpace_def TrimLeftSpace_def
  TrimRightSpace_def trimLeftSeqs.simps leadingSpace_def unicodeSpaces_def

text \<open>
  C4 as stated fails on a line that begins with \<open>CR\<close>, and on one with a second \<open>CR\<close>
  before its terminator: the code's verb is \<^verbatim>\<open>USER\<close> and \<^verbatim>\<open>QUIT\<close>, where splitting the line
  without its terminator gives a verb with the \<open>CR\<close> in it.
\<close>

theorem parseLine_strips_leading_CR:
  "parseLine (CR # ''USER bob'' @ [CR, LF]) = (''USER'', ''bob'')
   \<and> parseLine_as_stated (CR # ''USER bob'' @ [CR, LF]) = (CR # ''USER'', ''bob'')
   \<and> parseLine (''QUIT'' @ [CR, CR, LF]) = (''QUIT'', [])
   \<and> parseLine_as_stated (''QUIT'' @ [CR, CR, LF]) = (''QUIT'' @ [CR], [])"
  by (simp add: parse_defs parseLine_as_stated_def stripTerminator_def)

lemma Trim_unique:
  assumes "set pre \<subseteq> set cs" and "set suf \<subseteq> set cs"
    and "t \<noteq> [] \<longrightarrow> hd t \<notin> set cs \<and> last t \<notin> set cs"
  shows "Trim (pre @ t @ suf) cs = t"
proof -
  let ?P = "\<lambda>c. c \<in> set cs"
  have d1: "dropWhile ?P (pre @ t @ suf) = dropWhile ?P (t @ suf)"
    using assms(1) by (intro dropWhile_append2) auto
  show ?thesis
  proof (cases "t = []")
    case True
    have "dropWhile ?P suf = []" using assms(2) dropWhile_eq_Nil_conv [of ?P suf] by blast
    with d1 True have "dropWhile ?P (pre @ t @ suf) = []" by simp
    then show ?thesis using True by (simp only: Trim_def rev.simps dropWhile.simps)
  next
    case False
    then obtain a r where t: "t = a # r" by (cases t) auto
    with assms(3) have a: "\<not> ?P a" by simp
    from t a have d2: "dropWhile ?P (t @ suf) = t @ suf" by simp
    have "dropWhile ?P (rev suf @ rev t) = dropWhile ?P (rev t)"
      using assms(2) by (intro dropWhile_append2) auto
    moreover from False obtain b q where rt: "rev t = b # q" by (cases "rev t") auto
    with False have "b = last t" by (metis last_rev list.sel(1) rev_rev_ident rev_is_Nil_conv)
    with assms(3) False have "\<not> ?P b" by simp
    with rt have "dropWhile ?P (rev t) = rev t" by simp
    ultimately have "dropWhile ?P (rev (t @ suf)) = rev t" by simp
    with d1 d2 show ?thesis by (simp add: Trim_def)
  qed
qed

lemma stripTerminator_plain:
  assumes "body \<noteq> [] \<longrightarrow> last body \<notin> {CR, LF}"
  shows "stripTerminator (body @ [CR, LF]) = body" and "stripTerminator (body @ [LF]) = body"
proof -
  show "stripTerminator (body @ [CR, LF]) = body" by (simp add: stripTerminator_def)
  show "stripTerminator (body @ [LF]) = body"
  proof (cases "rev body")
    case Nil
    then show ?thesis by (simp add: stripTerminator_def)
  next
    case (Cons b q)
    then have "body \<noteq> []" by auto
    moreover from Cons have "last body = b" by (metis last_rev list.sel(1) rev_rev_ident)
    ultimately have "b \<noteq> CR" using assms by auto
    with Cons have "dropTerminator (LF # rev body) = rev body" by simp
    then show ?thesis by (simp add: stripTerminator_def)
  qed
qed

text \<open>
  On a line that ends with \<open>CR LF\<close> or \<open>LF\<close> and whose content neither begins nor ends
  with \<open>CR\<close> or \<open>LF\<close>, the code parses as the specification words it.
\<close>

lemma parseLine_as_stated_agrees:
  assumes "line = body @ [CR, LF] \<or> line = body @ [LF]"
    and "body \<noteq> [] \<longrightarrow> hd body \<notin> {CR, LF} \<and> last body \<notin> {CR, LF}"
  shows "parseLine line = parseLine_as_stated line"
proof -
  have "Trim (body @ [CR, LF]) [CR, LF] = body"
    using Trim_unique [of "[]" "[CR, LF]" "[CR, LF]" body] assms(2) by simp
  moreover have "Trim (body @ [LF]) [CR, LF] = body"
    using Trim_unique [of "[]" "[CR, LF]" "[LF]" body] assms(2) by simp
  ultimately have t: "Trim line [CR, LF] = body" using assms(1) by auto
  from stripTerminator_plain [of body] assms have s: "stripTerminator line = body" by auto
  show ?thesis
    by (simp add: parseLine_def parseLine_as_stated_def t s SplitN_def Let_def)
qed

theorem parseLine_shape_witness:
  "parseLine (''user  bob smith '' @ [CR, LF]) = (''user'', ''bob smith'')
   \<and> (\<exists>pre s suf. ''user  bob smith '' @ [CR, LF] = pre @ s @ suf \<and> SP \<in> set s
        \<and> (\<exists>rest lead trail. s = ''user'' @ SP # rest
              \<and> rest = concat lead @ ''bob smith'' @ concat trail
              \<and> set lead \<subseteq> set unicodeSpaces \<and> set trail \<subseteq> set unicodeSpaces))
   \<and> parseLine (''QUIT'' @ [CR, LF]) = (''QUIT'', [])
   \<and> (\<exists>pre s suf. ''QUIT'' @ [CR, LF] = pre @ s @ suf \<and> SP \<notin> set s)
   \<and> list_all isASCII (fst (parseLine (''user  bob smith '' @ [CR, LF])))
   \<and> ToUpper (unicodeUpper strict_env) (fst (parseLine (''user  bob smith '' @ [CR, LF]))) = ''USER''"
proof -
  let ?l1 = "''user  bob smith '' @ [CR, LF]" and ?l2 = "''QUIT'' @ [CR, LF]"
  have p1: "parseLine ?l1 = (''user'', ''bob smith'')" by (simp add: parse_defs)
  have p2: "parseLine ?l2 = (''QUIT'', [])" by (simp add: parse_defs)
  from parseLine_shape [of ?l1 strict_env example_world] obtain pre s suf where
    a: "?l1 = pre @ s @ suf" "SP \<notin> set s \<longrightarrow> parseLine ?l1 = (s, [])"
       "SP \<in> set s \<longrightarrow>
         (\<exists>verb rest lead arg trail.
            s = verb @ SP # rest \<and> SP \<notin> set verb
          \<and> rest = concat lead @ arg @ concat trail
          \<and> set lead \<subseteq> set unicodeSpaces \<and> set trail \<subseteq> set unicodeSpaces
          \<and> \<not> (\<exists>sp \<in> set unicodeSpaces. prefix sp arg)
          \<and> \<not> (\<exists>sp \<in> set unicodeSpaces. suffix sp arg)
          \<and> parseLine ?l1 = (verb, arg))"
    by blast
  from a(2) p1 have sp: "SP \<in> set s" by auto
  with a(3) p1 have "\<exists>rest lead trail. s = ''user'' @ SP # rest
              \<and> rest = concat lead @ ''bob smith'' @ concat trail
              \<and> set lead \<subseteq> set unicodeSpaces \<and> set trail \<subseteq> set unicodeSpaces"
    by (metis prod.inject)
  with a(1) sp have e1: "\<exists>pre s suf. ?l1 = pre @ s @ suf \<and> SP \<in> set s
        \<and> (\<exists>rest lead trail. s = ''user'' @ SP # rest
              \<and> rest = concat lead @ ''bob smith'' @ concat trail
              \<and> set lead \<subseteq> set unicodeSpaces \<and> set trail \<subseteq> set unicodeSpaces)"
    by blast
  from parseLine_shape [of ?l2 strict_env example_world] obtain pre' s' suf' where
    b: "?l2 = pre' @ s' @ suf'" by blast
  have "SP \<notin> set ?l2" by simp
  with b have "SP \<notin> set s'" by (metis Un_iff set_append)
  with b have e2: "\<exists>pre s suf. ?l2 = pre @ s @ suf \<and> SP \<notin> set s" by blast
  have asc: "list_all isASCII (fst (parseLine ?l1))" by (simp add: p1 [simplified] isASCII_def)
  from parseLine_shape [of ?l1 strict_env example_world] asc
  have "ToUpper (unicodeUpper strict_env) (fst (parseLine ?l1)) = map upperByte (fst (parseLine ?l1))"
    by blast
  then have up: "ToUpper (unicodeUpper strict_env) (fst (parseLine ?l1)) = ''USER''"
    by (simp add: p1 [simplified] upperByte_def)
  from p1 e1 p2 e2 asc up show ?thesis by blast
qed

end
